theory Spec2Isabelle
  imports Main
begin

section \<open>The element type, the memory provider and the observable world\<close>

text \<open>
  \<^verbatim>\<open>vector.h\<close> is a class template: everything it does to an element goes through an
  operation of the element type \<open>T\<close> (value construction, construction from arguments,
  copy and move construction, copy and move assignment, destruction) and everything it
  does to memory goes through \<open>operator new\<close> and \<open>operator delete\<close>. Each such call is
  an event. The world keeps the events attempted so far and the objects whose storage
  was released while they were still alive (their destructor never ran).
\<close>

datatype 'a event =
    ValueCtor
  | ArgsCtor 'a
  | CopyCtor 'a
  | MoveCtor 'a
  | CopyAssign 'a
  | MoveAssign 'a
  | Dtor 'a
  | New nat

datatype error = bad_alloc | element_exception | assertion_failure | undefined_behaviour

text \<open>
  The template parameter \<open>T\<close> together with the memory provider. The two booleans are
  the type traits the source branches on; \<open>value_init\<close> is the value of \<open>T()\<close>;
  \<open>moved_from\<close> is the state a move leaves its source in; \<open>throws h e\<close> says whether
  the operation \<open>e\<close>, attempted after the history \<open>h\<close>, raises an exception (for
  \<open>New n\<close>: whether \<open>operator new\<close> raises \<open>std::bad_alloc\<close>). Copies are
  taken to produce an equal value. \<open>sizeof\<close> is the size in bytes of an object of \<open>T\<close>.
\<close>

record 'a elem_type =
  sizeof :: nat
  is_nothrow_move_constructible :: bool
  is_copy_constructible :: bool
  value_init :: 'a
  moved_from :: "'a \<Rightarrow> 'a"
  throws :: "'a event list \<Rightarrow> 'a event \<Rightarrow> bool"

record 'a world =
  trace :: "'a event list"
  leaked :: "'a list"

type_synonym 'a block = "'a option list"
type_synonym status = "error + unit"

text \<open>Destructors are \<open>noexcept\<close>; so is the move constructor of a nothrow-movable type.\<close>

fun raises :: "'a elem_type \<Rightarrow> 'a event list \<Rightarrow> 'a event \<Rightarrow> bool" where
  "raises T h (Dtor v) = False"
| "raises T h (MoveCtor v) = (\<not> is_nothrow_move_constructible T \<and> throws T h (MoveCtor v))"
| "raises T h e = throws T h e"

definition emit :: "'a event \<Rightarrow> 'a world \<Rightarrow> 'a world" where
  "emit e w = w\<lparr>trace := trace w @ [e]\<rparr>"

text \<open>
  Lengths, capacities and positions are natural numbers, and \<open>size_t\<close> has 64 bits. The
  byte count \<^verbatim>\<open>n * sizeof(T)\<close> of \<open>RawMemory::Allocate\<close>, where \<open>n\<close> may be any number
  a caller of \<open>Reserve\<close>, \<open>Resize\<close> or a constructor chooses, is a product in \<open>size_t\<close>
  and is reduced as it is there. The new capacity \<^verbatim>\<open>size_ * 2\<close> of \<open>Emplace\<close> is not
  reduced: \<^verbatim>\<open>size_\<close> objects live in one buffer, and no buffer has more than
  \<open>PTRDIFF_MAX = 2 ^ 63 - 1\<close> bytes.
\<close>

definition SIZE_MAX :: nat where
  "SIZE_MAX = 2 ^ 64 - 1"

definition size_t :: "nat \<Rightarrow> nat" where
  "size_t n = n mod 2 ^ 64"

section \<open>Raw memory: slots\<close>

text \<open>
  A block of raw memory for \<open>n\<close> elements is a list of \<open>n\<close> slots; a slot is \<open>None\<close>
  while it is uninitialized and \<open>Some v\<close> while an object of value \<open>v\<close> lives in it.
  Reading, assigning to or destroying a slot that holds no object, and any access
  outside the block, is undefined behaviour.
\<close>

definition slot :: "'a block \<Rightarrow> nat \<Rightarrow> 'a option" where
  "slot b i = (if i < length b then b ! i else None)"

text \<open>
  Placement of a freshly constructed object into slot \<open>i\<close> (\<open>std::construct_at\<close>, once
  the constructor has returned). An object already living there is never destroyed.
\<close>

definition place :: "nat \<Rightarrow> 'a \<Rightarrow> 'a block \<Rightarrow> 'a world \<Rightarrow> status \<times> 'a block \<times> 'a world" where
  "place i v b w =
     (if i < length b
      then (Inr (), b[i := Some v],
            (case b ! i of None \<Rightarrow> w | Some old \<Rightarrow> w\<lparr>leaked := leaked w @ [old]\<rparr>))
      else (Inl undefined_behaviour, b, w))"

section \<open>The standard algorithms the source calls\<close>

text \<open>\<open>std::destroy_n(first, n)\<close> and \<open>std::destroy(first, last)\<close>.\<close>

fun destroy_n :: "nat \<Rightarrow> nat \<Rightarrow> 'a block \<Rightarrow> 'a world \<Rightarrow> status \<times> 'a block \<times> 'a world" where
  "destroy_n first 0 b w = (Inr (), b, w)"
| "destroy_n first (Suc n) b w =
     (case slot b first of
        None \<Rightarrow> (Inl undefined_behaviour, b, w)
      | Some v \<Rightarrow> destroy_n (Suc first) n (b[first := None]) (emit (Dtor v) w))"

definition destroy :: "nat \<Rightarrow> nat \<Rightarrow> 'a block \<Rightarrow> 'a world \<Rightarrow> status \<times> 'a block \<times> 'a world" where
  "destroy first last' b w =
     (if last' < first then (Inl undefined_behaviour, b, w)
      else destroy_n first (last' - first) b w)"

text \<open>
  The handler of the \<open>std::uninitialized_*\<close> algorithms: destroy what was constructed
  in \<open>[d_first, cur)\<close>, then rethrow.
\<close>

definition unwind :: "nat \<Rightarrow> nat \<Rightarrow> 'a block \<Rightarrow> 'a world \<Rightarrow> status \<times> 'a block \<times> 'a world" where
  "unwind d_first cur b w =
     (case destroy d_first cur b w of
        (Inl e, b', w') \<Rightarrow> (Inl e, b', w')
      | (Inr _, b', w') \<Rightarrow> (Inl element_exception, b', w'))"

text \<open>\<open>std::uninitialized_value_construct_n(first, n)\<close> and its range form.\<close>

fun uvc_loop ::
  "'a elem_type \<Rightarrow> nat \<Rightarrow> nat \<Rightarrow> nat \<Rightarrow> 'a block \<Rightarrow> 'a world \<Rightarrow> status \<times> 'a block \<times> 'a world" where
  "uvc_loop T d_first cur 0 b w = (Inr (), b, w)"
| "uvc_loop T d_first cur (Suc n) b w =
     (if raises T (trace w) ValueCtor then unwind d_first cur b (emit ValueCtor w)
      else case place cur (value_init T) b (emit ValueCtor w) of
             (Inl e, b', w') \<Rightarrow> (Inl e, b', w')
           | (Inr _, b', w') \<Rightarrow> uvc_loop T d_first (Suc cur) n b' w')"

definition uninitialized_value_construct_n ::
  "'a elem_type \<Rightarrow> nat \<Rightarrow> nat \<Rightarrow> 'a block \<Rightarrow> 'a world \<Rightarrow> status \<times> 'a block \<times> 'a world" where
  "uninitialized_value_construct_n T first n b w = uvc_loop T first first n b w"

definition uninitialized_value_construct ::
  "'a elem_type \<Rightarrow> nat \<Rightarrow> nat \<Rightarrow> 'a block \<Rightarrow> 'a world \<Rightarrow> status \<times> 'a block \<times> 'a world" where
  "uninitialized_value_construct T first last' b w =
     (if last' < first then (Inl undefined_behaviour, b, w)
      else uvc_loop T first first (last' - first) b w)"

text \<open>\<open>std::uninitialized_fill_n(first, n, value)\<close>.\<close>

fun ufill_loop ::
  "'a elem_type \<Rightarrow> 'a \<Rightarrow> nat \<Rightarrow> nat \<Rightarrow> nat \<Rightarrow> 'a block \<Rightarrow> 'a world \<Rightarrow> status \<times> 'a block \<times> 'a world" where
  "ufill_loop T val d_first cur 0 b w = (Inr (), b, w)"
| "ufill_loop T val d_first cur (Suc n) b w =
     (if raises T (trace w) (CopyCtor val) then unwind d_first cur b (emit (CopyCtor val) w)
      else case place cur val b (emit (CopyCtor val) w) of
             (Inl e, b', w') \<Rightarrow> (Inl e, b', w')
           | (Inr _, b', w') \<Rightarrow> ufill_loop T val d_first (Suc cur) n b' w')"

definition uninitialized_fill_n ::
  "'a elem_type \<Rightarrow> nat \<Rightarrow> nat \<Rightarrow> 'a \<Rightarrow> 'a block \<Rightarrow> 'a world \<Rightarrow> status \<times> 'a block \<times> 'a world" where
  "uninitialized_fill_n T first n val b w = ufill_loop T val first first n b w"

text \<open>
  \<open>std::uninitialized_copy(first, last, d_first)\<close>: the source range lies in the block
  \<open>src\<close>, which copying leaves as it is; the destination is the block \<open>dst\<close>.
\<close>

fun ucopy_loop ::
  "'a elem_type \<Rightarrow> 'a block \<Rightarrow> nat \<Rightarrow> nat \<Rightarrow> nat \<Rightarrow> nat \<Rightarrow> 'a block \<Rightarrow> 'a world
     \<Rightarrow> status \<times> 'a block \<times> 'a world" where
  "ucopy_loop T src first 0 d_first cur dst w = (Inr (), dst, w)"
| "ucopy_loop T src first (Suc n) d_first cur dst w =
     (case slot src first of
        None \<Rightarrow> (Inl undefined_behaviour, dst, w)
      | Some v \<Rightarrow>
          (if raises T (trace w) (CopyCtor v) then unwind d_first cur dst (emit (CopyCtor v) w)
           else (case place cur v dst (emit (CopyCtor v) w) of
                   (Inl e, dst', w') \<Rightarrow> (Inl e, dst', w')
                 | (Inr _, dst', w') \<Rightarrow>
                     ucopy_loop T src (Suc first) n d_first (Suc cur) dst' w')))"

definition uninitialized_copy ::
  "'a elem_type \<Rightarrow> 'a block \<Rightarrow> nat \<Rightarrow> nat \<Rightarrow> 'a block \<Rightarrow> nat \<Rightarrow> 'a world
     \<Rightarrow> status \<times> 'a block \<times> 'a world" where
  "uninitialized_copy T src first last' dst d_first w =
     (if last' < first then (Inl undefined_behaviour, dst, w)
      else ucopy_loop T src first (last' - first) d_first d_first dst w)"

text \<open>
  \<open>std::uninitialized_move(first, last, d_first)\<close>: each source object is left in its
  moved-from state, so the source block is returned too.
\<close>

fun umove_loop ::
  "'a elem_type \<Rightarrow> nat \<Rightarrow> nat \<Rightarrow> nat \<Rightarrow> nat \<Rightarrow> 'a block \<Rightarrow> 'a block \<Rightarrow> 'a world
     \<Rightarrow> status \<times> 'a block \<times> 'a block \<times> 'a world" where
  "umove_loop T first 0 d_first cur src dst w = (Inr (), src, dst, w)"
| "umove_loop T first (Suc n) d_first cur src dst w =
     (case slot src first of
        None \<Rightarrow> (Inl undefined_behaviour, src, dst, w)
      | Some v \<Rightarrow>
          (if raises T (trace w) (MoveCtor v)
           then (case unwind d_first cur dst (emit (MoveCtor v) w) of
                   (st, dst', w') \<Rightarrow> (st, src, dst', w'))
           else (case place cur v dst (emit (MoveCtor v) w) of
                   (Inl e, dst', w') \<Rightarrow> (Inl e, src, dst', w')
                 | (Inr _, dst', w') \<Rightarrow>
                     umove_loop T (Suc first) n d_first (Suc cur)
                       (src[first := Some (moved_from T v)]) dst' w')))"

definition uninitialized_move ::
  "'a elem_type \<Rightarrow> 'a block \<Rightarrow> nat \<Rightarrow> nat \<Rightarrow> 'a block \<Rightarrow> nat \<Rightarrow> 'a world
     \<Rightarrow> status \<times> 'a block \<times> 'a block \<times> 'a world" where
  "uninitialized_move T src first last' dst d_first w =
     (if last' < first then (Inl undefined_behaviour, src, dst, w)
      else umove_loop T first (last' - first) d_first d_first src dst w)"

text \<open>
  \<open>std::copy_n(first, n, result)\<close> from the block \<open>src\<close> into live objects of the block
  \<open>dst\<close>, by copy assignment. Nothing is undone when an assignment raises.
\<close>

fun copy_n ::
  "'a elem_type \<Rightarrow> 'a block \<Rightarrow> nat \<Rightarrow> nat \<Rightarrow> nat \<Rightarrow> 'a block \<Rightarrow> 'a world
     \<Rightarrow> status \<times> 'a block \<times> 'a world" where
  "copy_n T src first 0 result dst w = (Inr (), dst, w)"
| "copy_n T src first (Suc n) result dst w =
     (case slot src first of
        None \<Rightarrow> (Inl undefined_behaviour, dst, w)
      | Some v \<Rightarrow>
          (case slot dst result of
             None \<Rightarrow> (Inl undefined_behaviour, dst, w)
           | Some old \<Rightarrow>
               if raises T (trace w) (CopyAssign v)
               then (Inl element_exception, dst, emit (CopyAssign v) w)
               else copy_n T src (Suc first) n (Suc result) (dst[result := Some v])
                      (emit (CopyAssign v) w)))"

text \<open>
  \<open>std::copy(first, last, d_first)\<close> and \<open>std::move(first, last, d_first)\<close> inside one
  block, front to back, by copy and by move assignment.
\<close>

fun copy_loop ::
  "'a elem_type \<Rightarrow> nat \<Rightarrow> nat \<Rightarrow> nat \<Rightarrow> 'a block \<Rightarrow> 'a world \<Rightarrow> status \<times> 'a block \<times> 'a world" where
  "copy_loop T first 0 result b w = (Inr (), b, w)"
| "copy_loop T first (Suc n) result b w =
     (case slot b first of
        None \<Rightarrow> (Inl undefined_behaviour, b, w)
      | Some v \<Rightarrow>
          (case slot b result of
             None \<Rightarrow> (Inl undefined_behaviour, b, w)
           | Some old \<Rightarrow>
               if raises T (trace w) (CopyAssign v)
               then (Inl element_exception, b, emit (CopyAssign v) w)
               else copy_loop T (Suc first) n (Suc result) (b[result := Some v])
                      (emit (CopyAssign v) w)))"

definition copy_range ::
  "'a elem_type \<Rightarrow> nat \<Rightarrow> nat \<Rightarrow> nat \<Rightarrow> 'a block \<Rightarrow> 'a world \<Rightarrow> status \<times> 'a block \<times> 'a world" where
  "copy_range T first last' d_first b w =
     (if last' < first then (Inl undefined_behaviour, b, w)
      else copy_loop T first (last' - first) d_first b w)"

fun move_loop ::
  "'a elem_type \<Rightarrow> nat \<Rightarrow> nat \<Rightarrow> nat \<Rightarrow> 'a block \<Rightarrow> 'a world \<Rightarrow> status \<times> 'a block \<times> 'a world" where
  "move_loop T first 0 result b w = (Inr (), b, w)"
| "move_loop T first (Suc n) result b w =
     (case slot b first of
        None \<Rightarrow> (Inl undefined_behaviour, b, w)
      | Some v \<Rightarrow>
          (case slot b result of
             None \<Rightarrow> (Inl undefined_behaviour, b, w)
           | Some old \<Rightarrow>
               if raises T (trace w) (MoveAssign v)
               then (Inl element_exception, b, emit (MoveAssign v) w)
               else move_loop T (Suc first) n (Suc result)
                      (b[result := Some v, first := Some (moved_from T v)])
                      (emit (MoveAssign v) w)))"

definition move_range ::
  "'a elem_type \<Rightarrow> nat \<Rightarrow> nat \<Rightarrow> nat \<Rightarrow> 'a block \<Rightarrow> 'a world \<Rightarrow> status \<times> 'a block \<times> 'a world" where
  "move_range T first last' d_first b w =
     (if last' < first then (Inl undefined_behaviour, b, w)
      else move_loop T first (last' - first) d_first b w)"

text \<open>
  \<open>std::move_backward(first, last, d_last)\<close> inside one block: back to front,
  \<open>*(--d_last) = std::move(*(--last))\<close>.
\<close>

fun move_backward_loop ::
  "'a elem_type \<Rightarrow> nat \<Rightarrow> nat \<Rightarrow> nat \<Rightarrow> 'a block \<Rightarrow> 'a world \<Rightarrow> status \<times> 'a block \<times> 'a world" where
  "move_backward_loop T 0 last' d_last b w = (Inr (), b, w)"
| "move_backward_loop T (Suc n) last' d_last b w =
     (if last' = 0 \<or> d_last = 0 then (Inl undefined_behaviour, b, w)
      else case slot b (last' - 1) of
        None \<Rightarrow> (Inl undefined_behaviour, b, w)
      | Some v \<Rightarrow>
          (case slot b (d_last - 1) of
             None \<Rightarrow> (Inl undefined_behaviour, b, w)
           | Some old \<Rightarrow>
               if raises T (trace w) (MoveAssign v)
               then (Inl element_exception, b, emit (MoveAssign v) w)
               else move_backward_loop T n (last' - 1) (d_last - 1)
                      (b[d_last - 1 := Some v, last' - 1 := Some (moved_from T v)])
                      (emit (MoveAssign v) w)))"

definition move_backward ::
  "'a elem_type \<Rightarrow> nat \<Rightarrow> nat \<Rightarrow> nat \<Rightarrow> 'a block \<Rightarrow> 'a world \<Rightarrow> status \<times> 'a block \<times> 'a world" where
  "move_backward T first last' d_last b w =
     (if last' < first then (Inl undefined_behaviour, b, w)
      else move_backward_loop T (last' - first) last' d_last b w)"

section \<open>RawMemory\<close>

text \<open>
  The owning handle of a block. A pointer into the block is its offset from the start of
  the block; the null pointer of a handle of capacity 0 is the empty block. The members
  \<^verbatim>\<open>buffer_\<close>, \<^verbatim>\<open>capacity_\<close>, \<^verbatim>\<open>data_\<close> and \<^verbatim>\<open>size_\<close> of the source are the fields
  \<open>m_buffer\<close>, \<open>m_capacity\<close>, \<open>m_data\<close> and \<open>m_size\<close> here.
\<close>

record 'a RawMemory =
  m_buffer :: "'a block"
  m_capacity :: nat

text \<open>
  \<open>RawMemory::Allocate\<close>: \<open>operator new\<close> is called only for \<open>n > 0\<close>, and it is asked
  for \<^verbatim>\<open>n * sizeof(T)\<close> bytes, a product in \<open>size_t\<close>. The block it returns has a slot
  for each object those bytes have room for: \<open>n\<close> slots unless the product wrapped. The
  event \<open>New n\<close> is the call \<open>Allocate(n)\<close> reaching \<open>operator new\<close>.
\<close>

definition Allocate :: "'a elem_type \<Rightarrow> nat \<Rightarrow> 'a world \<Rightarrow> (error + 'a block) \<times> 'a world" where
  "Allocate T n w =
     (if n > 0
      then (if raises T (trace w) (New n) then (Inl bad_alloc, emit (New n) w)
            else (Inr (replicate (size_t (n * sizeof T) div sizeof T) None), emit (New n) w))
      else (Inr [], w))"

text \<open>
  \<open>RawMemory::Deallocate\<close>: the block is released without any destructor call, so
  the objects still living in it are leaked.
\<close>

definition Deallocate :: "'a block \<Rightarrow> 'a world \<Rightarrow> 'a world" where
  "Deallocate buf w = w\<lparr>leaked := leaked w @ map the (filter (\<lambda>s. s \<noteq> None) buf)\<rparr>"

definition RawMemory_default :: "'a RawMemory" where
  "RawMemory_default = \<lparr>m_buffer = [], m_capacity = 0\<rparr>"

definition RawMemory_new :: "'a elem_type \<Rightarrow> nat \<Rightarrow> 'a world \<Rightarrow> (error + 'a RawMemory) \<times> 'a world" where
  "RawMemory_new T capacity w =
     (case Allocate T capacity w of
        (Inl e, w') \<Rightarrow> (Inl e, w')
      | (Inr buf, w') \<Rightarrow> (Inr \<lparr>m_buffer = buf, m_capacity = capacity\<rparr>, w'))"

definition RawMemory_dtor :: "'a RawMemory \<Rightarrow> 'a world \<Rightarrow> 'a world" where
  "RawMemory_dtor m w = Deallocate (m_buffer m) w"

text \<open>The assertion of \<open>RawMemory::operator+\<close> and that of \<open>RawMemory::operator[]\<close>.\<close>

definition plus_ok :: "'a RawMemory \<Rightarrow> nat \<Rightarrow> bool" where
  "plus_ok m offset \<longleftrightarrow> offset \<le> m_capacity m"


definition RawMemory_Swap :: "'a RawMemory \<Rightarrow> 'a RawMemory \<Rightarrow> 'a RawMemory \<times> 'a RawMemory" where
  "RawMemory_Swap m other =
     (\<lparr>m_buffer = m_buffer other, m_capacity = m_capacity other\<rparr>,
      \<lparr>m_buffer = m_buffer m, m_capacity = m_capacity m\<rparr>)"

text \<open>
  \<open>RawMemory(RawMemory&& other)\<close>: the new handle and what is left of \<open>other\<close>; and
  \<open>operator=(RawMemory&& rhs)\<close> on two distinct handles, which is \<open>Swap\<close>.
\<close>

definition RawMemory_move :: "'a RawMemory \<Rightarrow> 'a RawMemory \<times> 'a RawMemory" where
  "RawMemory_move other =
     (\<lparr>m_buffer = m_buffer other, m_capacity = m_capacity other\<rparr>,
      \<lparr>m_buffer = [], m_capacity = 0\<rparr>)"

definition RawMemory_move_assign ::
  "'a RawMemory \<Rightarrow> 'a RawMemory \<Rightarrow> 'a RawMemory \<times> 'a RawMemory" where
  "RawMemory_move_assign m rhs = RawMemory_Swap m rhs"

text \<open>
  \<open>std::exchange(obj, {})\<close> and \<open>std::swap(a, b)\<close> on handles, through the two
  operations above: the value returned and \<open>obj\<close> afterwards, and \<open>a\<close> and \<open>b\<close>
  afterwards. The temporaries they destroy are handles a move has left with the null
  pointer, so their destruction releases nothing.
\<close>

definition exchange_RawMemory :: "'a RawMemory \<Rightarrow> 'a RawMemory \<times> 'a RawMemory" where
  "exchange_RawMemory obj =
     (fst (RawMemory_move obj),
      fst (RawMemory_move_assign (snd (RawMemory_move obj)) RawMemory_default))"

definition swap_RawMemory :: "'a RawMemory \<Rightarrow> 'a RawMemory \<Rightarrow> 'a RawMemory \<times> 'a RawMemory" where
  "swap_RawMemory a b =
     (fst (RawMemory_move_assign (snd (RawMemory_move a)) b),
      fst (RawMemory_move_assign (snd (RawMemory_move_assign (snd (RawMemory_move a)) b))
             (fst (RawMemory_move a))))"

text \<open>
  An exception leaving a scope destroys the scope's local \<open>RawMemory\<close>; a failed
  assertion or undefined behaviour ends the program instead.
\<close>

definition is_exception :: "error \<Rightarrow> bool" where
  "is_exception e \<longleftrightarrow> e = bad_alloc \<or> e = element_exception"

definition unwind_RawMemory :: "error \<Rightarrow> 'a RawMemory \<Rightarrow> 'a world \<Rightarrow> 'a world" where
  "unwind_RawMemory e m w = (if is_exception e then RawMemory_dtor m w else w)"

definition unwind_temporary :: "error \<Rightarrow> 'a \<Rightarrow> 'a world \<Rightarrow> 'a world" where
  "unwind_temporary e x w = (if is_exception e then emit (Dtor x) w else w)"

section \<open>Vector\<close>

record 'a Vector =
  m_data :: "'a RawMemory"
  m_size :: nat

definition block_of :: "'a Vector \<Rightarrow> 'a block" where
  "block_of v = m_buffer (m_data v)"

definition with_block :: "'a Vector \<Rightarrow> 'a block \<Rightarrow> 'a Vector" where
  "with_block v b = v\<lparr>m_data := (m_data v)\<lparr>m_buffer := b\<rparr>\<rparr>"

definition Size :: "'a Vector \<Rightarrow> nat" where
  "Size v = m_size v"

definition Capacity :: "'a Vector \<Rightarrow> nat" where
  "Capacity v = m_capacity (m_data v)"

text \<open>
  \<open>begin()\<close> is offset 0 and \<open>end()\<close> is \<^verbatim>\<open>data_ + size_\<close>, which goes through
  \<open>RawMemory::operator+\<close> and its assertion; a model function that evaluates \<open>end()\<close>
  checks \<open>end_ok\<close> at that point.
\<close>

definition end_ok :: "'a Vector \<Rightarrow> bool" where
  "end_ok v \<longleftrightarrow> plus_ok (m_data v) (m_size v)"

subsection \<open>Construction and destruction\<close>

definition Vector_default :: "'a Vector" where
  "Vector_default = \<lparr>m_data = RawMemory_default, m_size = 0\<rparr>"

text \<open>\<open>explicit Vector(size_t size)\<close>\<close>

definition Vector_sized :: "'a elem_type \<Rightarrow> nat \<Rightarrow> 'a world \<Rightarrow> (error + 'a Vector) \<times> 'a world" where
  "Vector_sized T n w =
     (case RawMemory_new T n w of
        (Inl e, w1) \<Rightarrow> (Inl e, w1)
      | (Inr m, w1) \<Rightarrow>
          (case uninitialized_value_construct_n T 0 n (m_buffer m) w1 of
             (Inl e, b, w2) \<Rightarrow> (Inl e, unwind_RawMemory e (m\<lparr>m_buffer := b\<rparr>) w2)
           | (Inr _, b, w2) \<Rightarrow> (Inr \<lparr>m_data = m\<lparr>m_buffer := b\<rparr>, m_size = n\<rparr>, w2)))"

text \<open>\<open>explicit Vector(size_t size, const T& value)\<close>\<close>

definition Vector_filled :: "'a elem_type \<Rightarrow> nat \<Rightarrow> 'a \<Rightarrow> 'a world \<Rightarrow> (error + 'a Vector) \<times> 'a world" where
  "Vector_filled T n val w =
     (case RawMemory_new T n w of
        (Inl e, w1) \<Rightarrow> (Inl e, w1)
      | (Inr m, w1) \<Rightarrow>
          (case uninitialized_fill_n T 0 n val (m_buffer m) w1 of
             (Inl e, b, w2) \<Rightarrow> (Inl e, unwind_RawMemory e (m\<lparr>m_buffer := b\<rparr>) w2)
           | (Inr _, b, w2) \<Rightarrow> (Inr \<lparr>m_data = m\<lparr>m_buffer := b\<rparr>, m_size = n\<rparr>, w2)))"

text \<open>
  \<open>Vector(std::initializer_list<T> values)\<close> and \<open>Vector(Iter first, Iter last)\<close>: the
  input is the list of its values; \<open>m_size\<close> is initialised from the capacity of \<open>m_data\<close>.
\<close>

definition Vector_of_list :: "'a elem_type \<Rightarrow> 'a list \<Rightarrow> 'a world \<Rightarrow> (error + 'a Vector) \<times> 'a world" where
  "Vector_of_list T values w =
     (case RawMemory_new T (length values) w of
        (Inl e, w1) \<Rightarrow> (Inl e, w1)
      | (Inr m, w1) \<Rightarrow>
          (case uninitialized_copy T (map Some values) 0 (length values) (m_buffer m) 0 w1 of
             (Inl e, b, w2) \<Rightarrow> (Inl e, unwind_RawMemory e (m\<lparr>m_buffer := b\<rparr>) w2)
           | (Inr _, b, w2) \<Rightarrow> (Inr \<lparr>m_data = m\<lparr>m_buffer := b\<rparr>, m_size = m_capacity m\<rparr>, w2)))"

text \<open>\<open>Vector(const Vector& other)\<close>\<close>

definition Vector_copy :: "'a elem_type \<Rightarrow> 'a Vector \<Rightarrow> 'a world \<Rightarrow> (error + 'a Vector) \<times> 'a world" where
  "Vector_copy T other w =
     (case RawMemory_new T (m_size other) w of
        (Inl e, w1) \<Rightarrow> (Inl e, w1)
      | (Inr m, w1) \<Rightarrow>
          if \<not> end_ok other then (Inl assertion_failure, w1)
          else (case uninitialized_copy T (block_of other) 0 (m_size other) (m_buffer m) 0 w1 of
                  (Inl e, b, w2) \<Rightarrow> (Inl e, unwind_RawMemory e (m\<lparr>m_buffer := b\<rparr>) w2)
                | (Inr _, b, w2) \<Rightarrow> (Inr \<lparr>m_data = m\<lparr>m_buffer := b\<rparr>, m_size = m_size other\<rparr>, w2)))"

text \<open>
  \<open>Vector(Vector&& other)\<close>: the new vector and what is left of \<open>other\<close>. Both members
  are taken with \<open>std::exchange\<close>; no element and no allocation is touched.
\<close>

definition Vector_move :: "'a Vector \<Rightarrow> 'a world \<Rightarrow> 'a Vector \<times> 'a Vector \<times> 'a world" where
  "Vector_move other w =
     (\<lparr>m_data = fst (exchange_RawMemory (m_data other)), m_size = m_size other\<rparr>,
      \<lparr>m_data = snd (exchange_RawMemory (m_data other)), m_size = 0\<rparr>, w)"

text \<open>\<open>~Vector()\<close>, followed by the destructor of the member \<open>m_data\<close>.\<close>

definition Vector_dtor :: "'a Vector \<Rightarrow> 'a world \<Rightarrow> status \<times> 'a world" where
  "Vector_dtor v w =
     (if block_of v \<noteq> []
      then (case destroy_n 0 (m_size v) (block_of v) w of
              (Inl e, b, w1) \<Rightarrow> (Inl e, w1)
            | (Inr _, b, w1) \<Rightarrow> (Inr (), RawMemory_dtor ((m_data v)\<lparr>m_buffer := b\<rparr>) w1))
      else (Inr (), RawMemory_dtor (m_data v) w))"

definition Swap :: "'a Vector \<Rightarrow> 'a Vector \<Rightarrow> 'a Vector \<times> 'a Vector" where
  "Swap v rhs =
     (\<lparr>m_data = fst (swap_RawMemory (m_data v) (m_data rhs)), m_size = m_size rhs\<rparr>,
      \<lparr>m_data = snd (swap_RawMemory (m_data v) (m_data rhs)), m_size = m_size v\<rparr>)"

subsection \<open>Assignment\<close>

text \<open>
  The assignment operators take two vector objects that may be the same object, and
  compare their addresses. Vector objects therefore live in a store, at addresses.
\<close>

type_synonym 'a store = "nat \<Rightarrow> 'a Vector"

text \<open>\<open>Vector& operator=(const Vector& rhs)\<close>, called on the object at \<open>this\<close>.\<close>

definition copy_assign ::
  "'a elem_type \<Rightarrow> nat \<Rightarrow> nat \<Rightarrow> 'a store \<Rightarrow> 'a world \<Rightarrow> status \<times> 'a store \<times> 'a world" where
  "copy_assign T this rhs st w =
     (if this = rhs then (Inr (), st, w)
      else if Capacity (st this) \<ge> m_size (st rhs)
      then (case copy_n T (block_of (st rhs)) 0 (min (m_size (st this)) (m_size (st rhs))) 0
                   (block_of (st this)) w of
              (Inl e, b1, w1) \<Rightarrow> (Inl e, st(this := with_block (st this) b1), w1)
            | (Inr _, b1, w1) \<Rightarrow>
                (case (if m_size (st this) > m_size (st rhs)
                       then destroy (min (m_size (st this)) (m_size (st rhs))) (m_size (st this)) b1 w1
                       else if \<not> end_ok (st rhs) then (Inl assertion_failure, b1, w1)
                       else uninitialized_copy T (block_of (st rhs))
                              (min (m_size (st this)) (m_size (st rhs))) (m_size (st rhs))
                              b1 (min (m_size (st this)) (m_size (st rhs))) w1) of
                   (Inl e, b2, w2) \<Rightarrow> (Inl e, st(this := with_block (st this) b2), w2)
                 | (Inr _, b2, w2) \<Rightarrow>
                     (Inr (), st(this := (with_block (st this) b2)\<lparr>m_size := m_size (st rhs)\<rparr>), w2)))
      else (case Vector_copy T (st rhs) w of
              (Inl e, w1) \<Rightarrow> (Inl e, st, w1)
            | (Inr tmp, w1) \<Rightarrow>
                (case Vector_dtor (snd (Swap (st this) tmp)) w1 of
                   (s, w2) \<Rightarrow> (s, st(this := fst (Swap (st this) tmp)), w2))))"

text \<open>\<open>Vector& operator=(Vector&& rhs) noexcept\<close>\<close>

definition move_assign :: "nat \<Rightarrow> nat \<Rightarrow> 'a store \<Rightarrow> 'a world \<Rightarrow> 'a store \<times> 'a world" where
  "move_assign this rhs st w =
     (if this \<noteq> rhs
      then (st(this := fst (Swap (st this) (st rhs)), rhs := snd (Swap (st this) (st rhs))), w)
      else (st, w))"

subsection \<open>Growth\<close>

text \<open>
  \<open>OverwriteData(InpFirst, InpLast, DestIter)\<close>: the bulk transfer from the block
  \<open>src\<close> into the block \<open>dst\<close>, by move or by copy as the traits of \<open>T\<close> say.
\<close>

definition OverwriteData ::
  "'a elem_type \<Rightarrow> 'a block \<Rightarrow> nat \<Rightarrow> nat \<Rightarrow> 'a block \<Rightarrow> nat \<Rightarrow> 'a world
     \<Rightarrow> status \<times> 'a block \<times> 'a block \<times> 'a world" where
  "OverwriteData T src InpFirst InpLast dst DestIter w =
     (if is_nothrow_move_constructible T \<or> \<not> is_copy_constructible T
      then uninitialized_move T src InpFirst InpLast dst DestIter w
      else (case uninitialized_copy T src InpFirst InpLast dst DestIter w of
              (s, dst', w') \<Rightarrow> (s, src, dst', w')))"

definition Reserve ::
  "'a elem_type \<Rightarrow> nat \<Rightarrow> 'a Vector \<Rightarrow> 'a world \<Rightarrow> status \<times> 'a Vector \<times> 'a world" where
  "Reserve T new_capacity v w =
     (if new_capacity \<le> Capacity v then (Inr (), v, w)
      else (case RawMemory_new T new_capacity w of
              (Inl e, w1) \<Rightarrow> (Inl e, v, w1)
            | (Inr new_data, w1) \<Rightarrow>
                if \<not> end_ok v then (Inl assertion_failure, v, w1)
                else (case OverwriteData T (block_of v) 0 (m_size v) (m_buffer new_data) 0 w1 of
                        (Inl e, old1, new1, w2) \<Rightarrow>
                          (Inl e, with_block v old1,
                           unwind_RawMemory e (new_data\<lparr>m_buffer := new1\<rparr>) w2)
                      | (Inr _, old1, new1, w2) \<Rightarrow>
                          (case destroy_n 0 (m_size v) old1 w2 of
                             (Inl e, old2, w3) \<Rightarrow> (Inl e, with_block v old2, w3)
                           | (Inr _, old2, w3) \<Rightarrow>
                               (Inr (), v\<lparr>m_data := new_data\<lparr>m_buffer := new1\<rparr>\<rparr>,
                                RawMemory_dtor ((m_data v)\<lparr>m_buffer := old2\<rparr>) w3)))))"

definition Resize ::
  "'a elem_type \<Rightarrow> nat \<Rightarrow> 'a Vector \<Rightarrow> 'a world \<Rightarrow> status \<times> 'a Vector \<times> 'a world" where
  "Resize T new_size v w =
     (if m_size v > new_size
      then (if \<not> end_ok v then (Inl assertion_failure, v, w)
            else (case destroy new_size (m_size v) (block_of v) w of
                    (Inl e, b, w1) \<Rightarrow> (Inl e, with_block v b, w1)
                  | (Inr _, b, w1) \<Rightarrow> (Inr (), (with_block v b)\<lparr>m_size := new_size\<rparr>, w1)))
      else if new_size > Capacity v
      then (case RawMemory_new T new_size w of
              (Inl e, w1) \<Rightarrow> (Inl e, v, w1)
            | (Inr new_data, w1) \<Rightarrow>
                if \<not> (plus_ok new_data (m_size v) \<and> plus_ok new_data new_size)
                then (Inl assertion_failure, v, w1)
                else (case uninitialized_value_construct T (m_size v) new_size
                             (m_buffer new_data) w1 of
                        (Inl e, new1, w2) \<Rightarrow>
                          (Inl e, v, unwind_RawMemory e (new_data\<lparr>m_buffer := new1\<rparr>) w2)
                      | (Inr _, new1, w2) \<Rightarrow>
                          if \<not> end_ok v then (Inl assertion_failure, v, w2)
                          else (case OverwriteData T (block_of v) 0 (m_size v) new1 0 w2 of
                                  (Inl e, old1, new2, w3) \<Rightarrow>
                                    (Inl e, with_block v old1,
                                     unwind_RawMemory e (new_data\<lparr>m_buffer := new2\<rparr>) w3)
                                | (Inr _, old1, new2, w3) \<Rightarrow>
                                    (case destroy 0 (m_size v) old1 w3 of
                                       (Inl e, old2, w4) \<Rightarrow> (Inl e, with_block v old2, w4)
                                     | (Inr _, old2, w4) \<Rightarrow>
                                         (Inr (),
                                          \<lparr>m_data = new_data\<lparr>m_buffer := new2\<rparr>,
                                           m_size = new_size\<rparr>,
                                          RawMemory_dtor ((m_data v)\<lparr>m_buffer := old2\<rparr>) w4)))))
      else (if \<not> end_ok v then (Inl assertion_failure, v, w)
            else (case uninitialized_value_construct T (m_size v) new_size (block_of v) w of
                    (Inl e, b, w1) \<Rightarrow> (Inl e, with_block v b, w1)
                  | (Inr _, b, w1) \<Rightarrow> (Inr (), (with_block v b)\<lparr>m_size := new_size\<rparr>, w1))))"

subsection \<open>Insertion and removal\<close>

text \<open>
  The arguments forwarded to a constructor of \<open>T\<close>. A reference designates an object
  outside the vector, given by its value, or the element of this very vector at an index.
  \<open>ConstRef\<close> selects the copy constructor, \<open>RvalueRef\<close> the move constructor (which
  leaves the referenced object moved-from), \<open>CtorArgs x\<close> stands for any other
  arguments, from which \<open>T\<close> builds the value \<open>x\<close>.
\<close>

datatype 'a ref = Outside 'a | Element nat

datatype 'a args = ConstRef "'a ref" | RvalueRef "'a ref" | CtorArgs 'a

fun deref :: "'a ref \<Rightarrow> 'a block \<Rightarrow> 'a option" where
  "deref (Outside x) b = Some x"
| "deref (Element k) b = slot b k"

fun leave_moved_from :: "'a elem_type \<Rightarrow> 'a ref \<Rightarrow> 'a \<Rightarrow> 'a block \<Rightarrow> 'a block" where
  "leave_moved_from T (Outside y) x b = b"
| "leave_moved_from T (Element k) x b = b[k := Some (moved_from T x)]"

text \<open>
  \<open>T(std::forward<Args>(args)...)\<close>, evaluated while the elements of the vector are
  in the block \<open>b\<close>: the value constructed and the block afterwards.
\<close>

fun construct ::
  "'a elem_type \<Rightarrow> 'a args \<Rightarrow> 'a block \<Rightarrow> 'a world \<Rightarrow> (error + 'a) \<times> 'a block \<times> 'a world" where
  "construct T (CtorArgs x) b w =
     (if raises T (trace w) (ArgsCtor x) then (Inl element_exception, b, emit (ArgsCtor x) w)
      else (Inr x, b, emit (ArgsCtor x) w))"
| "construct T (ConstRef r) b w =
     (case deref r b of
        None \<Rightarrow> (Inl undefined_behaviour, b, w)
      | Some x \<Rightarrow>
          (if raises T (trace w) (CopyCtor x) then (Inl element_exception, b, emit (CopyCtor x) w)
           else (Inr x, b, emit (CopyCtor x) w)))"
| "construct T (RvalueRef r) b w =
     (case deref r b of
        None \<Rightarrow> (Inl undefined_behaviour, b, w)
      | Some x \<Rightarrow>
          (if raises T (trace w) (MoveCtor x) then (Inl element_exception, b, emit (MoveCtor x) w)
           else (Inr x, leave_moved_from T r x b, emit (MoveCtor x) w)))"

text \<open>
  The first statement of the mid-array branch of \<open>Emplace\<close> after the temporary:
  \<open>std::construct_at(end(), std::move(Back()))\<close> or \<open>std::construct_at(end(), Back())\<close>.
\<close>

definition construct_back ::
  "'a elem_type \<Rightarrow> nat \<Rightarrow> 'a block \<Rightarrow> 'a world \<Rightarrow> status \<times> 'a block \<times> 'a world" where
  "construct_back T n b w =
     (if n = 0 then (Inl undefined_behaviour, b, w)
      else case slot b (n - 1) of
        None \<Rightarrow> (Inl undefined_behaviour, b, w)
      | Some x \<Rightarrow>
          (if is_nothrow_move_constructible T \<or> \<not> is_copy_constructible T
           then (if raises T (trace w) (MoveCtor x)
                 then (Inl element_exception, b, emit (MoveCtor x) w)
                 else place n x (b[n - 1 := Some (moved_from T x)]) (emit (MoveCtor x) w))
           else (if raises T (trace w) (CopyCtor x)
                 then (Inl element_exception, b, emit (CopyCtor x) w)
                 else place n x b (emit (CopyCtor x) w))))"

text \<open>
  The last statement of that branch, \<open>*non_const_it = std::move(new_value)\<close>, and the
  destruction of the temporary at the end of the block.
\<close>

definition assign_temporary ::
  "'a elem_type \<Rightarrow> nat \<Rightarrow> 'a \<Rightarrow> 'a block \<Rightarrow> 'a world \<Rightarrow> status \<times> 'a block \<times> 'a world" where
  "assign_temporary T it_pos new_value b w =
     (case slot b it_pos of
        None \<Rightarrow> (Inl undefined_behaviour, b, w)
      | Some old \<Rightarrow>
          (if raises T (trace w) (MoveAssign new_value)
           then (Inl element_exception, b, emit (Dtor new_value) (emit (MoveAssign new_value) w))
           else (Inr (), b[it_pos := Some new_value],
                 emit (Dtor (moved_from T new_value)) (emit (MoveAssign new_value) w))))"

text \<open>
  \<open>Emplace(it, args...)\<close>: the iterator is its offset \<open>it\<close> from \<open>begin()\<close>, and so is
  the iterator returned.
\<close>

definition Emplace ::
  "'a elem_type \<Rightarrow> nat \<Rightarrow> 'a args \<Rightarrow> 'a Vector \<Rightarrow> 'a world \<Rightarrow> (error + nat) \<times> 'a Vector \<times> 'a world" where
  "Emplace T it a v w =
     (if \<not> (end_ok v \<and> it \<le> m_size v) then (Inl assertion_failure, v, w)
      else if Capacity v = Size v
      then (case RawMemory_new T (if m_size v = 0 then 1 else m_size v * 2) w of
              (Inl e, w1) \<Rightarrow> (Inl e, v, w1)
            | (Inr new_data, w1) \<Rightarrow>
                (case construct T a (block_of v) w1 of
                   (Inl e, old1, w2) \<Rightarrow> (Inl e, with_block v old1, unwind_RawMemory e new_data w2)
                 | (Inr x, old1, w2) \<Rightarrow>
                     (case place it x (m_buffer new_data) w2 of
                        (Inl e, new1, w3) \<Rightarrow> (Inl e, with_block v old1, w3)
                      | (Inr _, new1, w3) \<Rightarrow>
                          (case OverwriteData T old1 0 it new1 0 w3 of
                             (Inl e, old2, new2, w4) \<Rightarrow>
                               (Inl e, with_block v old2,
                                unwind_RawMemory e (new_data\<lparr>m_buffer := new2\<rparr>) w4)
                           | (Inr _, old2, new2, w4) \<Rightarrow>
                               (case OverwriteData T old2 it (m_size v) new2 (it + 1) w4 of
                                  (Inl e, old3, new3, w5) \<Rightarrow>
                                    (Inl e, with_block v old3,
                                     unwind_RawMemory e (new_data\<lparr>m_buffer := new3\<rparr>) w5)
                                | (Inr _, old3, new3, w5) \<Rightarrow>
                                    (case destroy 0 (m_size v) old3 w5 of
                                       (Inl e, old4, w6) \<Rightarrow> (Inl e, with_block v old4, w6)
                                     | (Inr _, old4, w6) \<Rightarrow>
                                         (Inr it,
                                          \<lparr>m_data = new_data\<lparr>m_buffer := new3\<rparr>,
                                           m_size = m_size v + 1\<rparr>,
                                          RawMemory_dtor ((m_data v)\<lparr>m_buffer := old4\<rparr>) w6)))))))
      else if it = m_size v
      then (case construct T a (block_of v) w of
              (Inl e, b1, w1) \<Rightarrow> (Inl e, with_block v b1, w1)
            | (Inr x, b1, w1) \<Rightarrow>
                (case place (m_size v) x b1 w1 of
                   (Inl e, b2, w2) \<Rightarrow> (Inl e, with_block v b2, w2)
                 | (Inr _, b2, w2) \<Rightarrow>
                     (Inr it, (with_block v b2)\<lparr>m_size := m_size v + 1\<rparr>, w2)))
      else (case construct T a (block_of v) w of
              (Inl e, b1, w1) \<Rightarrow> (Inl e, with_block v b1, w1)
            | (Inr new_value, b1, w1) \<Rightarrow>
                (case construct_back T (m_size v) b1 w1 of
                   (Inl e, b2, w2) \<Rightarrow> (Inl e, with_block v b2, unwind_temporary e new_value w2)
                 | (Inr _, b2, w2) \<Rightarrow>
                     (case move_backward T it (m_size v - 1) (m_size v) b2 w2 of
                        (Inl e, b3, w3) \<Rightarrow>
                          (Inl e, with_block v b3, unwind_temporary e new_value w3)
                      | (Inr _, b3, w3) \<Rightarrow>
                          (case assign_temporary T it new_value b3 w3 of
                             (Inl e, b4, w4) \<Rightarrow> (Inl e, with_block v b4, w4)
                           | (Inr _, b4, w4) \<Rightarrow>
                               (Inr it, (with_block v b4)\<lparr>m_size := m_size v + 1\<rparr>, w4))))))"

definition EmplaceBack ::
  "'a elem_type \<Rightarrow> 'a args \<Rightarrow> 'a Vector \<Rightarrow> 'a world \<Rightarrow> (error + nat) \<times> 'a Vector \<times> 'a world" where
  "EmplaceBack T a v w =
     (if \<not> end_ok v then (Inl assertion_failure, v, w) else Emplace T (m_size v) a v w)"

text \<open>
  \<open>PushBack\<close> and \<open>Insert\<close> have two overloads each: an lvalue argument selects
  \<open>const T&\<close>, an rvalue argument selects \<open>T&&\<close>.
\<close>

datatype 'a val = Lvalue "'a ref" | Rvalue "'a ref"

fun forward :: "'a val \<Rightarrow> 'a args" where
  "forward (Lvalue r) = ConstRef r"
| "forward (Rvalue r) = RvalueRef r"

definition PushBack ::
  "'a elem_type \<Rightarrow> 'a val \<Rightarrow> 'a Vector \<Rightarrow> 'a world \<Rightarrow> status \<times> 'a Vector \<times> 'a world" where
  "PushBack T val v w =
     (case EmplaceBack T (forward val) v w of
        (Inl e, v', w') \<Rightarrow> (Inl e, v', w')
      | (Inr _, v', w') \<Rightarrow> (Inr (), v', w'))"

definition Insert ::
  "'a elem_type \<Rightarrow> nat \<Rightarrow> 'a val \<Rightarrow> 'a Vector \<Rightarrow> 'a world \<Rightarrow> (error + nat) \<times> 'a Vector \<times> 'a world" where
  "Insert T it val v w = Emplace T it (forward val) v w"

definition PopBack :: "'a Vector \<Rightarrow> 'a world \<Rightarrow> status \<times> 'a Vector \<times> 'a world" where
  "PopBack v w =
     (if \<not> m_size v \<noteq> 0 then (Inl assertion_failure, v, w)
      else if \<not> end_ok v then (Inl assertion_failure, v, w)
      else (case destroy_n (m_size v - 1) 1 (block_of v) w of
              (Inl e, b, w1) \<Rightarrow> (Inl e, with_block v b, w1)
            | (Inr _, b, w1) \<Rightarrow> (Inr (), (with_block v b)\<lparr>m_size := m_size v - 1\<rparr>, w1)))"

definition Erase ::
  "'a elem_type \<Rightarrow> nat \<Rightarrow> 'a Vector \<Rightarrow> 'a world \<Rightarrow> (error + nat) \<times> 'a Vector \<times> 'a world" where
  "Erase T it v w =
     (if \<not> (end_ok v \<and> it < m_size v) then (Inl assertion_failure, v, w)
      else (case (if is_nothrow_move_constructible T \<or> \<not> is_copy_constructible T
                  then move_range T (it + 1) (m_size v) it (block_of v) w
                  else copy_range T (it + 1) (m_size v) it (block_of v) w) of
              (Inl e, b1, w1) \<Rightarrow> (Inl e, with_block v b1, w1)
            | (Inr _, b1, w1) \<Rightarrow>
                (case destroy_n (m_size v - 1) 1 b1 w1 of
                   (Inl e, b2, w2) \<Rightarrow> (Inl e, with_block v b2, w2)
                 | (Inr _, b2, w2) \<Rightarrow>
                     (Inr it, (with_block v b2)\<lparr>m_size := m_size v - 1\<rparr>, w2))))"


section \<open>Logical content and the representation invariant\<close>

definition content :: "'a Vector \<Rightarrow> 'a list" where
  "content v = map the (take (m_size v) (block_of v))"

text \<open>
  The block has \<open>Capacity\<close> slots, the first \<open>m_size\<close> of them hold an object and the
  others are uninitialized.
\<close>

definition Vector_inv :: "'a Vector \<Rightarrow> bool" where
  "Vector_inv v \<longleftrightarrow>
     length (block_of v) = Capacity v \<and> m_size v \<le> Capacity v \<and>
     list_all (\<lambda>s. s \<noteq> None) (take (m_size v) (block_of v)) \<and>
     list_all (\<lambda>s. s = None) (drop (m_size v) (block_of v))"

definition never_throws :: "'a elem_type \<Rightarrow> bool" where
  "never_throws T \<longleftrightarrow> (\<forall>h e. \<not> throws T h e)"

section \<open>Element types and vectors used as concrete inputs\<close>

text \<open>
  A well-behaved element type over the natural numbers, of eight bytes an object, and a
  provider with memory.
\<close>

definition plain :: "nat elem_type" where
  "plain = \<lparr>sizeof = 8, is_nothrow_move_constructible = True, is_copy_constructible = True,
            value_init = 0, moved_from = (\<lambda>x. x), throws = (\<lambda>h e. False)\<rparr>"

text \<open>The same element type when the memory provider has nothing left.\<close>

definition out_of_memory :: "nat elem_type" where
  "out_of_memory = plain\<lparr>throws := (\<lambda>h e. case e of New n \<Rightarrow> True | _ \<Rightarrow> False)\<rparr>"

definition world0 :: "nat world" where
  "world0 = \<lparr>trace = [], leaked = []\<rparr>"

text \<open>The vector \<open>[1, 2]\<close> with capacity 2, and \<open>[7]\<close> with capacity 1.\<close>

definition vec12 :: "nat Vector" where
  "vec12 = \<lparr>m_data = \<lparr>m_buffer = [Some 1, Some 2], m_capacity = 2\<rparr>, m_size = 2\<rparr>"

definition vec7 :: "nat Vector" where
  "vec7 = \<lparr>m_data = \<lparr>m_buffer = [Some 7], m_capacity = 1\<rparr>, m_size = 1\<rparr>"

text \<open>A store with \<open>[1, 2]\<close> at address 0 and \<open>[7]\<close> everywhere else.\<close>

definition store0 :: "nat store" where
  "store0 = (\<lambda>a. if a = 0 then vec12 else vec7)"



text \<open>
  The element type of the failure scenario: copyable, its move constructor may throw, and
  its third copy construction throws.
\<close>

definition copies :: "'a event list \<Rightarrow> nat" where
  "copies h = length (filter (\<lambda>e. case e of CopyCtor x \<Rightarrow> True | _ \<Rightarrow> False) h)"

definition third_copy_throws :: "nat elem_type" where
  "third_copy_throws =
     \<lparr>sizeof = 8, is_nothrow_move_constructible = False, is_copy_constructible = True,
      value_init = 0, moved_from = (\<lambda>x. x),
      throws = (\<lambda>h e. case e of CopyCtor x \<Rightarrow> copies h = 2 | _ \<Rightarrow> False)\<rparr>"

text \<open>A copyable element type whose move constructor is not \<open>noexcept\<close>; nothing throws.\<close>

definition copy_preferring :: "nat elem_type" where
  "copy_preferring = plain\<lparr>is_nothrow_move_constructible := False\<rparr>"

text \<open>A nothrow-movable element type whose move assignment throws.\<close>

definition move_assign_throws :: "nat elem_type" where
  "move_assign_throws =
     plain\<lparr>throws := (\<lambda>h e. case e of MoveAssign x \<Rightarrow> True | _ \<Rightarrow> False)\<rparr>"

text \<open>
  A well-behaved element type whose moved-from objects can be told apart: a move leaves
  its source with its value plus 100.
\<close>

definition marking :: "nat elem_type" where
  "marking = plain\<lparr>moved_from := (\<lambda>x. x + 100)\<rparr>"

text \<open>The vector \<open>[1, 2, 3]\<close> with capacity 3, and \<open>[1, 2]\<close> with capacity 4.\<close>

definition vec123 :: "nat Vector" where
  "vec123 = \<lparr>m_data = \<lparr>m_buffer = [Some 1, Some 2, Some 3], m_capacity = 3\<rparr>, m_size = 3\<rparr>"

definition vec12_cap4 :: "nat Vector" where
  "vec12_cap4 =
     \<lparr>m_data = \<lparr>m_buffer = [Some 1, Some 2, None, None], m_capacity = 4\<rparr>, m_size = 2\<rparr>"

section \<open>Sequences of operations\<close>

text \<open>
  A sequence of \<open>PushBack\<close> calls on one vector, stopping at the first failure: the
  outcome, and the vector after each call made.
\<close>

fun PushBack_seq ::
  "'a elem_type \<Rightarrow> 'a val list \<Rightarrow> 'a Vector \<Rightarrow> 'a world \<Rightarrow> status \<times> 'a Vector list \<times> 'a world" where
  "PushBack_seq T [] v w = (Inr (), [], w)"
| "PushBack_seq T (x # xs) v w =
     (case PushBack T x v w of
        (Inl e, v', w') \<Rightarrow> (Inl e, [v'], w')
      | (Inr _, v', w') \<Rightarrow>
          (case PushBack_seq T xs v' w' of (s, vs, w'') \<Rightarrow> (s, v' # vs, w'')))"

section \<open>Notions used to state the results\<close>

definition emits :: "'a event list \<Rightarrow> 'a world \<Rightarrow> 'a world" where
  "emits es w = w\<lparr>trace := trace w @ es\<rparr>"

definition vector_of :: "'a list \<Rightarrow> nat \<Rightarrow> 'a Vector" where
  "vector_of xs c =
     \<lparr>m_data = \<lparr>m_buffer = map Some xs @ replicate (c - length xs) None, m_capacity = c\<rparr>,
      m_size = length xs\<rparr>"

fun ref_value :: "'a ref \<Rightarrow> 'a list \<Rightarrow> 'a option" where
  "ref_value (Outside x) xs = Some x"
| "ref_value (Element k) xs = (if k < length xs then Some (xs ! k) else None)"

fun arg_value :: "'a args \<Rightarrow> 'a list \<Rightarrow> 'a option" where
  "arg_value (CtorArgs x) xs = Some x"
| "arg_value (ConstRef r) xs = ref_value r xs"
| "arg_value (RvalueRef r) xs = ref_value r xs"

fun arg_effect :: "'a elem_type \<Rightarrow> 'a args \<Rightarrow> 'a list \<Rightarrow> 'a list" where
  "arg_effect T (RvalueRef (Element k)) xs = xs[k := moved_from T (xs ! k)]"
| "arg_effect T a xs = xs"

fun arg_event :: "'a args \<Rightarrow> 'a \<Rightarrow> 'a event" where
  "arg_event (CtorArgs y) x = ArgsCtor x"
| "arg_event (ConstRef r) x = CopyCtor x"
| "arg_event (RvalueRef r) x = MoveCtor x"

definition moves :: "'a elem_type \<Rightarrow> bool" where
  "moves T \<longleftrightarrow> is_nothrow_move_constructible T \<or> \<not> is_copy_constructible T"

definition left_behind :: "'a elem_type \<Rightarrow> 'a list \<Rightarrow> 'a list" where
  "left_behind T vs = (if moves T then map (moved_from T) vs else vs)"

definition transfer_event :: "'a elem_type \<Rightarrow> 'a \<Rightarrow> 'a event" where
  "transfer_event T v = (if moves T then MoveCtor v else CopyCtor v)"

definition grown :: "nat \<Rightarrow> nat \<Rightarrow> nat" where
  "grown c n = (if c = n then (if n = 0 then 1 else n * 2) else c)"

text \<open>
  \<open>fits T n\<close>: a buffer of \<open>n\<close> objects of \<open>T\<close> has a byte count that \<open>size_t\<close> holds, so
  that \<open>Allocate\<close> asks for all of it.
\<close>

definition fits :: "'a elem_type \<Rightarrow> nat \<Rightarrow> bool" where
  "fits T n \<longleftrightarrow> 0 < sizeof T \<and> n * sizeof T \<le> SIZE_MAX"

section \<open>Reachable states\<close>

text \<open>
  Control comes back to the caller of an operation when it returns or when it raises an
  exception; a failed assertion and undefined behaviour end the program.
\<close>

definition comes_back :: "error + 'r \<Rightarrow> bool" where
  "comes_back r \<longleftrightarrow> (case r of Inr x \<Rightarrow> True | Inl e \<Rightarrow> is_exception e)"

text \<open>
  The vectors a program can hold: what the constructors build, and what every operation
  leaves behind when control comes back from it, with one exit left out: that of a
  mid-array \<open>Emplace\<close> or \<open>Insert\<close> on a vector with spare capacity, by an exception.
  Every buffer asked for on the way has a byte count within \<open>size_t\<close>.
\<close>

inductive_set reachable :: "'a elem_type \<Rightarrow> 'a Vector set" for T :: "'a elem_type" where
  default: "Vector_default \<in> reachable T"
| sized: "fits T n \<Longrightarrow> Vector_sized T n w = (Inr v, w') \<Longrightarrow> v \<in> reachable T"
| filled: "fits T n \<Longrightarrow> Vector_filled T n x w = (Inr v, w') \<Longrightarrow> v \<in> reachable T"
| of_list: "fits T (length xs) \<Longrightarrow> Vector_of_list T xs w = (Inr v, w') \<Longrightarrow> v \<in> reachable T"
| copied:
    "u \<in> reachable T \<Longrightarrow> fits T (Size u) \<Longrightarrow> Vector_copy T u w = (Inr v, w') \<Longrightarrow>
     v \<in> reachable T"
| moved_to: "u \<in> reachable T \<Longrightarrow> fst (Vector_move u w) \<in> reachable T"
| moved_out: "u \<in> reachable T \<Longrightarrow> fst (snd (Vector_move u w)) \<in> reachable T"
| copy_assigned:
    "st this \<in> reachable T \<Longrightarrow> st rhs \<in> reachable T \<Longrightarrow> fits T (Size (st rhs)) \<Longrightarrow>
     copy_assign T this rhs st w = (r, st', w') \<Longrightarrow> comes_back r \<Longrightarrow> st' this \<in> reachable T"
| move_assigned:
    "st this \<in> reachable T \<Longrightarrow> st rhs \<in> reachable T \<Longrightarrow> a = this \<or> a = rhs \<Longrightarrow>
     fst (move_assign this rhs st w) a \<in> reachable T"
| swapped_left: "u \<in> reachable T \<Longrightarrow> v \<in> reachable T \<Longrightarrow> fst (Swap u v) \<in> reachable T"
| swapped_right: "u \<in> reachable T \<Longrightarrow> v \<in> reachable T \<Longrightarrow> snd (Swap u v) \<in> reachable T"
| reserved:
    "v \<in> reachable T \<Longrightarrow> fits T n \<Longrightarrow> Reserve T n v w = (r, v', w') \<Longrightarrow> comes_back r \<Longrightarrow>
     v' \<in> reachable T"
| resized:
    "v \<in> reachable T \<Longrightarrow> fits T n \<Longrightarrow> Resize T n v w = (r, v', w') \<Longrightarrow> comes_back r \<Longrightarrow>
     v' \<in> reachable T"
| emplaced:
    "v \<in> reachable T \<Longrightarrow> fits T (grown (Capacity v) (Size v)) \<Longrightarrow>
     Emplace T it a v w = (Inr i, v', w') \<Longrightarrow> v' \<in> reachable T"
| emplace_raised:
    "v \<in> reachable T \<Longrightarrow> fits T (grown (Capacity v) (Size v)) \<Longrightarrow>
     Emplace T it a v w = (Inl e, v', w') \<Longrightarrow> is_exception e \<Longrightarrow>
     \<not> (it < Size v \<and> Size v < Capacity v) \<Longrightarrow> v' \<in> reachable T"
| pushed:
    "v \<in> reachable T \<Longrightarrow> fits T (grown (Capacity v) (Size v)) \<Longrightarrow>
     PushBack T x v w = (r, v', w') \<Longrightarrow> comes_back r \<Longrightarrow> v' \<in> reachable T"
| inserted:
    "v \<in> reachable T \<Longrightarrow> fits T (grown (Capacity v) (Size v)) \<Longrightarrow>
     Insert T it x v w = (Inr i, v', w') \<Longrightarrow> v' \<in> reachable T"
| insert_raised:
    "v \<in> reachable T \<Longrightarrow> fits T (grown (Capacity v) (Size v)) \<Longrightarrow>
     Insert T it x v w = (Inl e, v', w') \<Longrightarrow> is_exception e \<Longrightarrow>
     \<not> (it < Size v \<and> Size v < Capacity v) \<Longrightarrow> v' \<in> reachable T"
| popped:
    "v \<in> reachable T \<Longrightarrow> PopBack v w = (r, v', w') \<Longrightarrow> comes_back r \<Longrightarrow> v' \<in> reachable T"
| erased:
    "v \<in> reachable T \<Longrightarrow> Erase T it v w = (r, v', w') \<Longrightarrow> comes_back r \<Longrightarrow>
     v' \<in> reachable T"



text \<open>
  \<open>refers x xs\<close>: the argument \<open>x\<close> refers to an object: one outside the vector, or an
  element of the content \<open>xs\<close> that exists.
\<close>

fun refers :: "'a val \<Rightarrow> 'a list \<Rightarrow> bool" where
  "refers (Lvalue (Outside x)) xs \<longleftrightarrow> True"
| "refers (Rvalue (Outside x)) xs \<longleftrightarrow> True"
| "refers (Lvalue (Element k)) xs \<longleftrightarrow> k < length xs"
| "refers (Rvalue (Element k)) xs \<longleftrightarrow> k < length xs"

section \<open>The standard algorithms on well-formed blocks\<close>

declare raises.simps [simp del]

lemma emits_Nil [simp]: "emits [] w = w"
  by (simp add: emits_def)

lemma emit_emits [simp]: "emit e (emits es w) = emits (es @ [e]) w"
  by (simp add: emits_def emit_def)

lemma emit_as_emits: "emit e w = emits [e] w"
  by (simp add: emits_def emit_def)

lemma emits_emits [simp]: "emits es2 (emits es1 w) = emits (es1 @ es2) w"
  by (simp add: emits_def)

lemma trace_emits [simp]: "trace (emits es w) = trace w @ es"
  by (simp add: emits_def)

lemma leaked_emits [simp]: "leaked (emits es w) = leaked w"
  by (simp add: emits_def)

lemma slot_middle [simp]: "slot (xs @ y # ys) (length xs) = y"
  by (simp add: slot_def)

lemma slot_middle_append [simp]: "slot (xs @ (y # ys) @ zs) (length xs) = y"
  by (simp add: slot_def)

lemma raises_not_never: "raises T h e \<Longrightarrow> \<not> never_throws T"
  by (cases e) (auto simp: never_throws_def raises.simps)

lemma leaked_emit [simp]: "leaked (emit e w) = leaked w"
  by (simp add: emit_def)

lemma trace_emit [simp]: "trace (emit e w) = trace w @ [e]"
  by (simp add: emit_def)

lemma destroy_n_live:
  "destroy_n (length xs) (length vs) (xs @ map Some vs @ ys) w =
     (Inr (), xs @ replicate (length vs) None @ ys, emits (map Dtor vs) w)"
proof (induction vs arbitrary: xs w)
  case Nil
  then show ?case by simp
next
  case (Cons v vs)
  have "destroy_n (length (xs @ [None])) (length vs) ((xs @ [None]) @ map Some vs @ ys) (emit (Dtor v) w) =
     (Inr (), (xs @ [None]) @ replicate (length vs) None @ ys, emits (map Dtor vs) (emit (Dtor v) w))"
    by (rule Cons.IH)
  then show ?case
    by (simp add: emit_as_emits)
qed

lemma destroy_live:
  "destroy (length xs) (length xs + length vs) (xs @ map Some vs @ ys) w =
     (Inr (), xs @ replicate (length vs) None @ ys, emits (map Dtor vs) w)"
  by (simp add: destroy_def destroy_n_live)

lemma unwind_live:
  "unwind (length xs) (length xs + length vs) (xs @ map Some vs @ ys) w =
     (Inl element_exception, xs @ replicate (length vs) None @ ys, emits (map Dtor vs) w)"
  by (simp add: unwind_def destroy_live)

lemma place_free:
  "place (length xs) v (xs @ None # ys) w = (Inr (), xs @ Some v # ys, w)"
  by (simp add: place_def)

lemma uvc_loop_result:
  assumes "uvc_loop T (length dx) (length dx + length done) n
             (dx @ map Some done @ replicate n None @ dy) w = (st, b', w')"
  shows "(st = Inr () \<and> b' = dx @ map Some done @ replicate n (Some (value_init T)) @ dy \<and>
          w' = emits (replicate n ValueCtor) w) \<or>
         (st = Inl element_exception \<and> b' = dx @ replicate (length done + n) None @ dy \<and>
          leaked w' = leaked w \<and> \<not> never_throws T)"
  using assms
proof (induction n arbitrary: "done" w)
  case 0
  then show ?case by simp
next
  case (Suc n)
  show ?case
  proof (cases "raises T (trace w) ValueCtor")
    case True
    have "(st, b', w') = unwind (length dx) (length dx + length done)
             (dx @ map Some done @ replicate (Suc n) None @ dy) (emit ValueCtor w)"
      using Suc.prems True by simp
    then have "st = Inl element_exception" "b' = dx @ replicate (length done) None @ replicate (Suc n) None @ dy"
       "w' = emits (map Dtor done) (emit ValueCtor w)"
      by (simp_all add: unwind_live)
    moreover have "replicate (length done) None @ replicate (Suc n) None @ dy = replicate (length done + Suc n) None @ dy"
      by (simp only: replicate_add append_assoc)
    ultimately show ?thesis
      using raises_not_never[OF True] by simp
  next
    case False
    have pl: "place (length dx + length done) (value_init T)
             (dx @ map Some done @ replicate (Suc n) None @ dy) (emit ValueCtor w)
          = (Inr (), dx @ map Some (done @ [value_init T]) @ replicate n None @ dy, emit ValueCtor w)"
      using place_free[of "dx @ map Some done" "value_init T" "replicate n None @ dy"]
      by simp
    have "uvc_loop T (length dx) (length dx + length (done @ [value_init T])) n
             (dx @ map Some (done @ [value_init T]) @ replicate n None @ dy) (emit ValueCtor w) = (st, b', w')"
      using Suc.prems False pl by simp
    from Suc.IH[OF this] show ?thesis
      by (auto simp: emit_as_emits replicate_append_same simp flip: replicate_add)
  qed
qed

lemma ufill_loop_result:
  assumes "ufill_loop T val (length dx) (length dx + length done) n
             (dx @ map Some done @ replicate n None @ dy) w = (st, b', w')"
  shows "(st = Inr () \<and> b' = dx @ map Some done @ replicate n (Some val) @ dy \<and>
          w' = emits (replicate n (CopyCtor val)) w) \<or>
         (st = Inl element_exception \<and> b' = dx @ replicate (length done + n) None @ dy \<and>
          leaked w' = leaked w \<and> \<not> never_throws T)"
  using assms
proof (induction n arbitrary: "done" w)
  case 0
  then show ?case by simp
next
  case (Suc n)
  show ?case
  proof (cases "raises T (trace w) (CopyCtor val)")
    case True
    have "(st, b', w') = unwind (length dx) (length dx + length done)
             (dx @ map Some done @ replicate (Suc n) None @ dy) (emit (CopyCtor val) w)"
      using Suc.prems True by simp
    then have "st = Inl element_exception"
      "b' = dx @ replicate (length done) None @ replicate (Suc n) None @ dy"
      "w' = emits (map Dtor done) (emit (CopyCtor val) w)"
      by (simp_all add: unwind_live)
    moreover have "replicate (length done) None @ replicate (Suc n) None @ dy =
                   replicate (length done + Suc n) None @ dy"
      by (simp only: replicate_add append_assoc)
    ultimately show ?thesis
      using raises_not_never[OF True] by simp
  next
    case False
    have pl: "place (length dx + length done) val
             (dx @ map Some done @ replicate (Suc n) None @ dy) (emit (CopyCtor val) w)
          = (Inr (), dx @ map Some (done @ [val]) @ replicate n None @ dy, emit (CopyCtor val) w)"
      using place_free[of "dx @ map Some done" val "replicate n None @ dy"]
      by simp
    have "ufill_loop T val (length dx) (length dx + length (done @ [val])) n
             (dx @ map Some (done @ [val]) @ replicate n None @ dy) (emit (CopyCtor val) w)
          = (st, b', w')"
      using Suc.prems False pl by simp
    from Suc.IH[OF this] show ?thesis
      by (auto simp: emit_as_emits replicate_append_same simp flip: replicate_add)
  qed
qed

lemma ucopy_loop_result:
  assumes "ucopy_loop T (sx @ map Some vs @ sy) (length sx) (length vs) (length dx)
             (length dx + length done)
             (dx @ map Some done @ replicate (length vs) None @ dy) w = (st, b', w')"
  shows "(st = Inr () \<and> b' = dx @ map Some done @ map Some vs @ dy \<and>
          w' = emits (map CopyCtor vs) w) \<or>
         (st = Inl element_exception \<and> b' = dx @ replicate (length done + length vs) None @ dy \<and>
          leaked w' = leaked w \<and> \<not> never_throws T)"
  using assms
proof (induction vs arbitrary: sx "done" w)
  case Nil
  then show ?case by simp
next
  case (Cons v vs)
  show ?case
  proof (cases "raises T (trace w) (CopyCtor v)")
    case True
    have "(st, b', w') = unwind (length dx) (length dx + length done)
             (dx @ map Some done @ replicate (Suc (length vs)) None @ dy) (emit (CopyCtor v) w)"
      using Cons.prems True by simp
    then have "st = Inl element_exception"
      "b' = dx @ replicate (length done) None @ replicate (Suc (length vs)) None @ dy"
      "w' = emits (map Dtor done) (emit (CopyCtor v) w)"
      by (simp_all add: unwind_live)
    moreover have "replicate (length done) None @ replicate (Suc (length vs)) None @ dy =
                   replicate (length done + Suc (length vs)) None @ dy"
      by (simp only: replicate_add append_assoc)
    ultimately show ?thesis
      using raises_not_never[OF True] by simp
  next
    case False
    have pl: "place (length dx + length done) v
             (dx @ map Some done @ replicate (Suc (length vs)) None @ dy) (emit (CopyCtor v) w)
          = (Inr (), dx @ map Some (done @ [v]) @ replicate (length vs) None @ dy,
             emit (CopyCtor v) w)"
      using place_free[of "dx @ map Some done" v "replicate (length vs) None @ dy"]
      by simp
    have "ucopy_loop T ((sx @ [Some v]) @ map Some vs @ sy) (length (sx @ [Some v])) (length vs)
             (length dx) (length dx + length (done @ [v]))
             (dx @ map Some (done @ [v]) @ replicate (length vs) None @ dy) (emit (CopyCtor v) w)
          = (st, b', w')"
      using Cons.prems False pl by simp
    from Cons.IH[OF this] show ?thesis
      by (auto simp: emit_as_emits)
  qed
qed

lemma umove_loop_result:
  assumes "umove_loop T (length sx) (length vs) (length dx) (length dx + length done)
             (sx @ map Some vs @ sy)
             (dx @ map Some done @ replicate (length vs) None @ dy) w = (st, s', b', w')"
  shows "(st = Inr () \<and> s' = sx @ map Some (map (moved_from T) vs) @ sy \<and>
          b' = dx @ map Some done @ map Some vs @ dy \<and>
          w' = emits (map MoveCtor vs) w) \<or>
         (st = Inl element_exception \<and>
          (\<exists>zs. length zs = length vs \<and> s' = sx @ map Some zs @ sy) \<and>
          b' = dx @ replicate (length done + length vs) None @ dy \<and>
          leaked w' = leaked w \<and> \<not> never_throws T)"
  using assms
proof (induction vs arbitrary: sx "done" w)
  case Nil
  then show ?case by simp
next
  case (Cons v vs)
  show ?case
  proof (cases "raises T (trace w) (MoveCtor v)")
    case True
    have "(st, b', w') = unwind (length dx) (length dx + length done)
             (dx @ map Some done @ replicate (Suc (length vs)) None @ dy) (emit (MoveCtor v) w)"
      and s': "s' = sx @ map Some (v # vs) @ sy"
      using Cons.prems True by (auto split: prod.splits)
    then have "st = Inl element_exception"
      "b' = dx @ replicate (length done) None @ replicate (Suc (length vs)) None @ dy"
      "w' = emits (map Dtor done) (emit (MoveCtor v) w)"
      by (simp_all add: unwind_live)
    moreover have "replicate (length done) None @ replicate (Suc (length vs)) None @ dy =
                   replicate (length done + Suc (length vs)) None @ dy"
      by (simp only: replicate_add append_assoc)
    moreover have "\<exists>zs. length zs = length (v # vs) \<and> s' = sx @ map Some zs @ sy"
      using s' by blast
    ultimately show ?thesis
      using raises_not_never[OF True] by simp
  next
    case False
    have pl: "place (length dx + length done) v
             (dx @ map Some done @ replicate (Suc (length vs)) None @ dy) (emit (MoveCtor v) w)
          = (Inr (), dx @ map Some (done @ [v]) @ replicate (length vs) None @ dy,
             emit (MoveCtor v) w)"
      using place_free[of "dx @ map Some done" v "replicate (length vs) None @ dy"]
      by simp
    have "umove_loop T (length (sx @ [Some (moved_from T v)])) (length vs)
             (length dx) (length dx + length (done @ [v]))
             ((sx @ [Some (moved_from T v)]) @ map Some vs @ sy)
             (dx @ map Some (done @ [v]) @ replicate (length vs) None @ dy) (emit (MoveCtor v) w)
          = (st, s', b', w')"
      using Cons.prems False pl by simp
    from Cons.IH[OF this] show ?thesis
    proof
      assume "st = Inr () \<and> s' = (sx @ [Some (moved_from T v)]) @ map Some (map (moved_from T) vs) @ sy \<and>
          b' = dx @ map Some (done @ [v]) @ map Some vs @ dy \<and>
          w' = emits (map MoveCtor vs) (emit (MoveCtor v) w)"
      then show ?thesis by (simp add: emit_as_emits)
    next
      assume f: "st = Inl element_exception \<and>
          (\<exists>zs. length zs = length vs \<and> s' = (sx @ [Some (moved_from T v)]) @ map Some zs @ sy) \<and>
          b' = dx @ replicate (length (done @ [v]) + length vs) None @ dy \<and>
          leaked w' = leaked (emit (MoveCtor v) w) \<and> \<not> never_throws T"
      then obtain zs where "length zs = length vs" "s' = (sx @ [Some (moved_from T v)]) @ map Some zs @ sy"
        by blast
      then have "length (moved_from T v # zs) = length (v # vs) \<and>
                 s' = sx @ map Some (moved_from T v # zs) @ sy"
        by simp
      then have "\<exists>zs. length zs = length (v # vs) \<and> s' = sx @ map Some zs @ sy"
        by blast
      with f show ?thesis by simp
    qed
  qed
qed

lemma slot_second [simp]: "slot (xs @ y # z # ys) (Suc (length xs)) = z"
  by (simp add: slot_def nth_append)

lemma update_second [simp]: "(xs @ y # z # ys)[Suc (length xs) := u] = xs @ y # u # ys"
  by (simp add: list_update_append)

lemma move_loop_result:
  assumes "move_loop T (Suc (length xs)) (length vs) (length xs)
             (xs @ Some y # map Some vs @ ys) w = (st, b', w')"
  shows "(st = Inr () \<and> b' = xs @ map Some vs @ Some (last (y # map (moved_from T) vs)) # ys \<and>
          w' = emits (map MoveAssign vs) w) \<or>
         (st = Inl element_exception \<and>
          (\<exists>zs. length zs = Suc (length vs) \<and> b' = xs @ map Some zs @ ys) \<and>
          leaked w' = leaked w \<and> \<not> never_throws T)"
  using assms
proof (induction vs arbitrary: xs y w)
  case Nil
  then show ?case by simp
next
  case (Cons v vs)
  show ?case
  proof (cases "raises T (trace w) (MoveAssign v)")
    case True
    then have "st = Inl element_exception" "b' = xs @ map Some (y # v # vs) @ ys"
      "w' = emit (MoveAssign v) w"
      using Cons.prems by simp_all
    moreover have "\<exists>zs. length zs = Suc (length (v # vs)) \<and>
                     xs @ map Some (y # v # vs) @ ys = xs @ map Some zs @ ys"
      by (rule exI[of _ "y # v # vs"]) simp
    ultimately show ?thesis
      using raises_not_never[OF True] by simp
  next
    case False
    have "move_loop T (Suc (length (xs @ [Some v]))) (length vs) (length (xs @ [Some v]))
             ((xs @ [Some v]) @ Some (moved_from T v) # map Some vs @ ys) (emit (MoveAssign v) w)
          = (st, b', w')"
      using Cons.prems False by simp
    from Cons.IH[OF this] show ?thesis
    proof
      assume "st = Inr () \<and>
         b' = (xs @ [Some v]) @ map Some vs @
              Some (last (moved_from T v # map (moved_from T) vs)) # ys \<and>
         w' = emits (map MoveAssign vs) (emit (MoveAssign v) w)"
      then show ?thesis by (simp add: emit_as_emits)
    next
      assume f: "st = Inl element_exception \<and>
         (\<exists>zs. length zs = Suc (length vs) \<and> b' = (xs @ [Some v]) @ map Some zs @ ys) \<and>
         leaked w' = leaked (emit (MoveAssign v) w) \<and> \<not> never_throws T"
      then obtain zs where "length zs = Suc (length vs)" "b' = (xs @ [Some v]) @ map Some zs @ ys"
        by blast
      then have "length (v # zs) = Suc (length (v # vs)) \<and> b' = xs @ map Some (v # zs) @ ys"
        by simp
      then have "\<exists>zs. length zs = Suc (length (v # vs)) \<and> b' = xs @ map Some zs @ ys"
        by blast
      with f show ?thesis by simp
    qed
  qed
qed

lemma copy_loop_result:
  assumes "copy_loop T (Suc (length xs)) (length vs) (length xs)
             (xs @ Some y # map Some vs @ ys) w = (st, b', w')"
  shows "(st = Inr () \<and> b' = xs @ map Some vs @ Some (last (y # vs)) # ys \<and>
          w' = emits (map CopyAssign vs) w) \<or>
         (st = Inl element_exception \<and>
          (\<exists>zs. length zs = Suc (length vs) \<and> b' = xs @ map Some zs @ ys) \<and>
          leaked w' = leaked w \<and> \<not> never_throws T)"
  using assms
proof (induction vs arbitrary: xs y w)
  case Nil
  then show ?case by simp
next
  case (Cons v vs)
  show ?case
  proof (cases "raises T (trace w) (CopyAssign v)")
    case True
    then have "st = Inl element_exception" "b' = xs @ map Some (y # v # vs) @ ys"
      "w' = emit (CopyAssign v) w"
      using Cons.prems by simp_all
    moreover have "\<exists>zs. length zs = Suc (length (v # vs)) \<and>
                     xs @ map Some (y # v # vs) @ ys = xs @ map Some zs @ ys"
      by (rule exI[of _ "y # v # vs"]) simp
    ultimately show ?thesis
      using raises_not_never[OF True] by simp
  next
    case False
    have "copy_loop T (Suc (length (xs @ [Some v]))) (length vs) (length (xs @ [Some v]))
             ((xs @ [Some v]) @ Some v # map Some vs @ ys) (emit (CopyAssign v) w)
          = (st, b', w')"
      using Cons.prems False by simp
    from Cons.IH[OF this] show ?thesis
    proof
      assume "st = Inr () \<and>
         b' = (xs @ [Some v]) @ map Some vs @ Some (last (v # vs)) # ys \<and>
         w' = emits (map CopyAssign vs) (emit (CopyAssign v) w)"
      then show ?thesis by (simp add: emit_as_emits)
    next
      assume f: "st = Inl element_exception \<and>
         (\<exists>zs. length zs = Suc (length vs) \<and> b' = (xs @ [Some v]) @ map Some zs @ ys) \<and>
         leaked w' = leaked (emit (CopyAssign v) w) \<and> \<not> never_throws T"
      then obtain zs where "length zs = Suc (length vs)" "b' = (xs @ [Some v]) @ map Some zs @ ys"
        by blast
      then have "length (v # zs) = Suc (length (v # vs)) \<and> b' = xs @ map Some (v # zs) @ ys"
        by simp
      then have "\<exists>zs. length zs = Suc (length (v # vs)) \<and> b' = xs @ map Some zs @ ys"
        by blast
      with f show ?thesis by simp
    qed
  qed
qed

lemma slot_at: "i = length xs \<Longrightarrow> slot (xs @ y # ys) i = y"
  by simp

lemma update_at: "i = length xs \<Longrightarrow> (xs @ y # ys)[i := z] = xs @ z # ys"
  by simp

lemma move_backward_loop_result:
  assumes "move_backward_loop T (length vs) (length xs + length vs) (Suc (length xs + length vs))
             (xs @ map Some vs @ Some h # ys) w = (st, b', w')"
  shows "(st = Inr () \<and> b' = xs @ Some (hd (map (moved_from T) vs @ [h])) # map Some vs @ ys \<and>
          w' = emits (map MoveAssign (rev vs)) w) \<or>
         (st = Inl element_exception \<and>
          (\<exists>zs. length zs = Suc (length vs) \<and> b' = xs @ map Some zs @ ys) \<and>
          leaked w' = leaked w \<and> \<not> never_throws T)"
  using assms
proof (induction vs arbitrary: h ys w rule: rev_induct)
  case Nil
  then show ?case by simp
next
  case (snoc v vs)
  let ?b = "xs @ map Some (vs @ [v]) @ Some h # ys"
  have b_eq: "?b = (xs @ map Some vs) @ Some v # Some h # ys"
    by simp
  have s1: "slot ?b (length xs + length vs) = Some v"
    unfolding b_eq by (rule slot_at) simp
  have s2: "slot ?b (Suc (length xs + length vs)) = Some h"
    unfolding b_eq using slot_second[of "xs @ map Some vs" "Some v" "Some h" ys] by simp
  have u: "?b[Suc (length xs + length vs) := Some v, length xs + length vs := Some (moved_from T v)]
           = xs @ map Some vs @ Some (moved_from T v) # Some v # ys"
    unfolding b_eq
    using update_second[of "xs @ map Some vs" "Some v" "Some h" ys "Some v"]
      update_at[of "length xs + length vs" "xs @ map Some vs" "Some v" "Some v # ys" "Some (moved_from T v)"]
    by simp
  have step: "move_backward_loop T (length (vs @ [v])) (length xs + length (vs @ [v]))
                (Suc (length xs + length (vs @ [v]))) ?b w =
              (if raises T (trace w) (MoveAssign v)
               then (Inl element_exception, ?b, emit (MoveAssign v) w)
               else move_backward_loop T (length vs) (length xs + length vs)
                      (Suc (length xs + length vs))
                      (xs @ map Some vs @ Some (moved_from T v) # Some v # ys)
                      (emit (MoveAssign v) w))"
    using s1 s2 u by simp
  show ?case
  proof (cases "raises T (trace w) (MoveAssign v)")
    case True
    then have "st = Inl element_exception" "b' = ?b" "w' = emit (MoveAssign v) w"
      using snoc.prems step by simp_all
    moreover have "\<exists>zs. length zs = Suc (length (vs @ [v])) \<and> ?b = xs @ map Some zs @ ys"
      by (rule exI[of _ "vs @ [v, h]"]) simp
    ultimately show ?thesis
      using raises_not_never[OF True] by simp
  next
    case False
    then have "move_backward_loop T (length vs) (length xs + length vs)
                      (Suc (length xs + length vs))
                      (xs @ map Some vs @ Some (moved_from T v) # Some v # ys)
                      (emit (MoveAssign v) w) = (st, b', w')"
      using snoc.prems step by simp
    from snoc.IH[OF this] show ?thesis
    proof
      assume "st = Inr () \<and>
         b' = xs @ Some (hd (map (moved_from T) vs @ [moved_from T v])) # map Some vs @ Some v # ys \<and>
         w' = emits (map MoveAssign (rev vs)) (emit (MoveAssign v) w)"
      moreover have "hd (map (moved_from T) vs @ [moved_from T v]) =
                     hd (map (moved_from T) (vs @ [v]) @ [h])"
        by (cases vs) simp_all
      ultimately show ?thesis by (simp add: emit_as_emits)
    next
      assume f: "st = Inl element_exception \<and>
         (\<exists>zs. length zs = Suc (length vs) \<and> b' = xs @ map Some zs @ Some v # ys) \<and>
         leaked w' = leaked (emit (MoveAssign v) w) \<and> \<not> never_throws T"
      then obtain zs where "length zs = Suc (length vs)" "b' = xs @ map Some zs @ Some v # ys"
        by blast
      then have "length (zs @ [v]) = Suc (length (vs @ [v])) \<and> b' = xs @ map Some (zs @ [v]) @ ys"
        by simp
      then have "\<exists>zs. length zs = Suc (length (vs @ [v])) \<and> b' = xs @ map Some zs @ ys"
        by blast
      with f show ?thesis by simp
    qed
  qed
qed

lemma all_live: "list_all (\<lambda>s. s \<noteq> None) xs \<Longrightarrow> map Some (map the xs) = xs"
  by (induction xs) auto

lemma all_free: "list_all (\<lambda>s. s = None) xs \<Longrightarrow> xs = replicate (length xs) None"
  by (induction xs) auto

lemma Vector_inv_vector_of:
  assumes "Vector_inv v"
  shows "v = vector_of (content v) (Capacity v)" and "length (content v) = m_size v"
    and "m_size v \<le> Capacity v"
proof -
  let ?b = "block_of v"
  have len: "length ?b = Capacity v" and le: "m_size v \<le> Capacity v"
    and live: "list_all (\<lambda>s. s \<noteq> None) (take (m_size v) ?b)"
    and free: "list_all (\<lambda>s. s = None) (drop (m_size v) ?b)"
    using assms by (simp_all add: Vector_inv_def)
  show "m_size v \<le> Capacity v" by (rule le)
  show l: "length (content v) = m_size v"
    using len le by (simp add: content_def)
  have "?b = take (m_size v) ?b @ drop (m_size v) ?b"
    by simp
  also have "take (m_size v) ?b = map Some (content v)"
    using all_live[OF live] by (simp add: content_def)
  also have "drop (m_size v) ?b = replicate (Capacity v - m_size v) None"
    using all_free[OF free] len by simp
  finally have "?b = map Some (content v) @ replicate (Capacity v - length (content v)) None"
    using l by simp
  then show "v = vector_of (content v) (Capacity v)"
    using l by (simp add: vector_of_def block_of_def Capacity_def)
qed

lemma content_vector_of [simp]: "content (vector_of xs c) = xs"
  by (simp add: content_def vector_of_def block_of_def comp_def)

lemma Capacity_vector_of [simp]: "Capacity (vector_of xs c) = c"
  by (simp add: vector_of_def Capacity_def)

lemma Size_vector_of [simp]: "Size (vector_of xs c) = length xs"
  by (simp add: vector_of_def Size_def)

lemma m_size_vector_of [simp]: "m_size (vector_of xs c) = length xs"
  by (simp add: vector_of_def)

lemma block_of_vector_of [simp]:
  "block_of (vector_of xs c) = map Some xs @ replicate (c - length xs) None"
  by (simp add: vector_of_def block_of_def)

lemma end_ok_vector_of [simp]: "end_ok (vector_of xs c) \<longleftrightarrow> length xs \<le> c"
  by (simp add: vector_of_def end_ok_def plus_ok_def)

lemma Vector_inv_of [simp]: "Vector_inv (vector_of xs c) \<longleftrightarrow> length xs \<le> c"
  by (auto simp: Vector_inv_def vector_of_def block_of_def Capacity_def list_all_iff)

lemma with_block_vector_of:
  "length ys = length xs \<Longrightarrow>
   with_block (vector_of xs c) (map Some ys @ replicate (c - length xs) None) = vector_of ys c"
  by (simp add: with_block_def vector_of_def)

lemma slot_content:
  "slot (map Some xs @ replicate k None) j = (if j < length xs then Some (xs ! j) else None)"
  by (auto simp: slot_def nth_append)

lemma deref_content: "deref r (map Some xs @ replicate k None) = ref_value r xs"
  by (cases r) (simp_all add: slot_content)

lemma construct_result:
  assumes "construct T a (map Some xs @ replicate k None) w = (r, b', w')"
    and "arg_value a xs = Some x"
  shows "(r = Inr x \<and> b' = map Some (arg_effect T a xs) @ replicate k None \<and>
          w' = emits [arg_event a x] w) \<or>
         (r = Inl element_exception \<and> b' = map Some xs @ replicate k None \<and>
          leaked w' = leaked w \<and> \<not> never_throws T)"
proof (cases a)
  case (CtorArgs y)
  then show ?thesis
    using assms by (auto simp: emit_as_emits dest: raises_not_never split: if_splits)
next
  case (ConstRef r')
  then show ?thesis
    using assms by (auto simp: emit_as_emits deref_content dest: raises_not_never split: if_splits)
next
  case (RvalueRef r')
  show ?thesis
  proof (cases r')
    case (Outside y)
    then show ?thesis
      using assms RvalueRef
      by (auto simp: emit_as_emits dest: raises_not_never split: if_splits)
  next
    case (Element j)
    then have j: "j < length xs" "x = xs ! j"
      using assms(2) RvalueRef by (auto split: if_splits)
    have "(map Some xs @ replicate k None)[j := Some (moved_from T (xs ! j))] =
          map Some (xs[j := moved_from T (xs ! j)]) @ replicate k None"
      using j by (simp add: list_update_append map_update)
    then show ?thesis
      using assms RvalueRef Element j
      by (auto simp: emit_as_emits slot_content dest: raises_not_never split: if_splits)
  qed
qed

lemma length_arg_effect [simp]: "length (arg_effect T a xs) = length xs"
  by (induction T a xs rule: arg_effect.induct) simp_all

lemma construct_back_result:
  assumes "construct_back T (Suc (length xs)) (map Some (xs @ [z]) @ None # ys) w = (st, b', w')"
  shows "(st = Inr () \<and>
          b' = map Some xs @ Some (if moves T then moved_from T z else z) # Some z # ys \<and>
          w' = emits [if moves T then MoveCtor z else CopyCtor z] w) \<or>
         (st = Inl element_exception \<and> b' = map Some (xs @ [z]) @ None # ys \<and>
          leaked w' = leaked w \<and> \<not> never_throws T)"
proof -
  let ?b = "map Some (xs @ [z]) @ None # ys"
  have b_eq: "?b = map Some xs @ Some z # None # ys"
    by simp
  have s: "slot ?b (length xs) = Some z"
    unfolding b_eq by (rule slot_at) simp
  have p1: "\<And>u w. place (Suc (length xs)) u (map Some xs @ Some (moved_from T z) # None # ys) w =
            (Inr (), map Some xs @ Some (moved_from T z) # Some u # ys, w)"
    using place_free[of "map Some xs @ [Some (moved_from T z)]"] by simp
  have p2: "\<And>u w. place (Suc (length xs)) u (map Some xs @ Some z # None # ys) w =
            (Inr (), map Some xs @ Some z # Some u # ys, w)"
    using place_free[of "map Some xs @ [Some z]"] by simp
  have u: "?b[length xs := Some (moved_from T z)] = map Some xs @ Some (moved_from T z) # None # ys"
    unfolding b_eq by (rule update_at) simp
  show ?thesis
    using assms s u p1 p2
    by (auto simp: construct_back_def moves_def emit_as_emits dest: raises_not_never
        split: if_splits)
qed

lemma assign_temporary_result:
  assumes "assign_temporary T (length xs) x (xs @ Some h # ys) w = (st, b', w')"
  shows "(st = Inr () \<and> b' = xs @ Some x # ys \<and>
          w' = emits [MoveAssign x, Dtor (moved_from T x)] w) \<or>
         (st = Inl element_exception \<and> b' = xs @ Some h # ys \<and>
          leaked w' = leaked w \<and> \<not> never_throws T)"
  using assms
  by (auto simp: assign_temporary_def emit_as_emits dest: raises_not_never split: if_splits)

lemmas vector_defs = Size_def Capacity_def end_ok_def plus_ok_def block_of_def with_block_def
  vector_of_def

lemma Emplace_end_result:
  assumes c: "length xs < c" and arg: "arg_value a xs = Some x"
    and run: "Emplace T (length xs) a (vector_of xs c) w = (st, v', w')"
  shows "(st = Inr (length xs) \<and> v' = vector_of (arg_effect T a xs @ [x]) c \<and>
          w' = emits [arg_event a x] w) \<or>
         (st = Inl element_exception \<and> v' = vector_of xs c \<and> leaked w' = leaked w \<and>
          \<not> never_throws T)"
proof -
  let ?k = "c - length xs"
  obtain r1 b1 w1 where c1: "construct T a (map Some xs @ replicate ?k None) w = (r1, b1, w1)"
    by (metis prod_cases3)
  from construct_result[OF c1 arg] show ?thesis
  proof
    assume ok: "r1 = Inr x \<and> b1 = map Some (arg_effect T a xs) @ replicate ?k None \<and>
                w1 = emits [arg_event a x] w"
    have "replicate ?k None = (None :: 'a option) # replicate (c - Suc (length xs)) None"
      using c by (cases ?k) (simp_all add: Suc_diff_Suc)
    then have pl: "place (length xs) x b1 w1 =
                  (Inr (), map Some (arg_effect T a xs @ [x]) @ replicate (c - Suc (length xs)) None, w1)"
      using ok place_free[of "map Some (arg_effect T a xs)" x "replicate (c - Suc (length xs)) None" w1]
      by simp
    show ?thesis
      using run c c1 ok pl
      by (simp add: Emplace_def vector_defs)
  next
    assume "r1 = Inl element_exception \<and> b1 = map Some xs @ replicate ?k None \<and>
            leaked w1 = leaked w \<and> \<not> never_throws T"
    then show ?thesis
      using run c c1 by (simp add: Emplace_def vector_defs)
  qed
qed

lemma Emplace_mid_core:
  assumes c: "length xs < c" and arg: "arg_value a xs = Some x"
    and xs1: "arg_effect T a xs = pre @ mid @ [z]"
    and run: "Emplace T (length pre) a (vector_of xs c) w = (st, v', w')"
  shows "(st = Inr (length pre) \<and> v' = vector_of (pre @ x # mid @ [z]) c \<and>
          w' = emits ([arg_event a x, if moves T then MoveCtor z else CopyCtor z] @
                      map MoveAssign (rev mid) @ [MoveAssign x, Dtor (moved_from T x)]) w) \<or>
         (st = Inl element_exception \<and> \<not> never_throws T)"
proof -
  let ?k = "c - length xs"
  let ?ys = "replicate (c - Suc (length xs)) (None::'a option)"
  let ?it = "length pre"
  have n: "length xs = Suc (length pre + length mid)"
    using arg_cong[OF xs1, of length] by simp
  have k: "replicate ?k None = (None :: 'a option) # ?ys"
    using c by (cases ?k) (simp_all add: Suc_diff_Suc)
  have guards: "end_ok (vector_of xs c)" "?it \<le> m_size (vector_of xs c)"
    "Capacity (vector_of xs c) \<noteq> Size (vector_of xs c)" "?it \<noteq> m_size (vector_of xs c)"
    using c n by simp_all
  obtain r1 b1 w1 where c1: "construct T a (block_of (vector_of xs c)) w = (r1, b1, w1)"
    by (metis prod_cases3)
  then have "construct T a (map Some xs @ replicate ?k None) w = (r1, b1, w1)"
    by simp
  from construct_result[OF this arg] show ?thesis
  proof
    assume "r1 = Inl element_exception \<and> b1 = map Some xs @ replicate ?k None \<and>
            leaked w1 = leaked w \<and> \<not> never_throws T"
    then show ?thesis
      using run guards c1 by (simp add: Emplace_def)
  next
    assume ok1: "r1 = Inr x \<and> b1 = map Some (arg_effect T a xs) @ replicate ?k None \<and>
                w1 = emits [arg_event a x] w"
    then have b1: "b1 = map Some ((pre @ mid) @ [z]) @ None # ?ys"
      using xs1 k by simp
    obtain r2 b2 w2 where c2: "construct_back T (m_size (vector_of xs c)) b1 w1 = (r2, b2, w2)"
      by (metis prod_cases3)
    then have "construct_back T (Suc (length (pre @ mid))) (map Some ((pre @ mid) @ [z]) @ None # ?ys) w1
               = (r2, b2, w2)"
      using b1 n by simp
    from construct_back_result[OF this] show ?thesis
    proof
      assume "r2 = Inl element_exception \<and> b2 = map Some ((pre @ mid) @ [z]) @ None # ?ys \<and>
              leaked w2 = leaked w1 \<and> \<not> never_throws T"
      then show ?thesis
        using run guards c1 ok1 c2 by (simp add: Emplace_def)
    next
      let ?h = "if moves T then moved_from T z else z"
      assume ok2: "r2 = Inr () \<and> b2 = map Some (pre @ mid) @ Some ?h # Some z # ?ys \<and>
              w2 = emits [if moves T then MoveCtor z else CopyCtor z] w1"
      then have b2: "b2 = map Some pre @ map Some mid @ Some ?h # Some z # ?ys"
        by simp
      obtain r3 b3 w3 where
        c3: "move_backward T ?it (m_size (vector_of xs c) - 1) (m_size (vector_of xs c)) b2 w2
             = (r3, b3, w3)"
        by (metis prod_cases3)
      then have "move_backward_loop T (length mid) (length (map Some pre) + length mid)
                   (Suc (length (map Some pre) + length mid))
                   (map Some pre @ map Some mid @ Some ?h # Some z # ?ys) w2 = (r3, b3, w3)"
        using b2 n by (simp add: move_backward_def)
      from move_backward_loop_result[OF this] show ?thesis
      proof
        assume "r3 = Inl element_exception \<and>
                (\<exists>zs. length zs = Suc (length mid) \<and> b3 = map Some pre @ map Some zs @ Some z # ?ys) \<and>
                leaked w3 = leaked w2 \<and> \<not> never_throws T"
        then show ?thesis
          using run guards c1 ok1 c2 ok2 c3 by (simp add: Emplace_def)
      next
        let ?hole = "hd (map (moved_from T) mid @ [?h])"
        assume ok3: "r3 = Inr () \<and>
                b3 = map Some pre @ Some ?hole # map Some mid @ Some z # ?ys \<and>
                w3 = emits (map MoveAssign (rev mid)) w2"
        obtain r4 b4 w4 where c4: "assign_temporary T ?it x b3 w3 = (r4, b4, w4)"
          by (metis prod_cases3)
        then have "assign_temporary T (length (map Some pre)) x
                     (map Some pre @ Some ?hole # map Some mid @ Some z # ?ys) w3 = (r4, b4, w4)"
          using ok3 by simp
        from assign_temporary_result[OF this] show ?thesis
        proof
          assume "r4 = Inl element_exception \<and>
                  b4 = map Some pre @ Some ?hole # map Some mid @ Some z # ?ys \<and>
                  leaked w4 = leaked w3 \<and> \<not> never_throws T"
          then show ?thesis
            using run guards c1 ok1 c2 ok2 c3 ok3 c4 by (simp add: Emplace_def)
        next
          assume ok4: "r4 = Inr () \<and> b4 = map Some pre @ Some x # map Some mid @ Some z # ?ys \<and>
                  w4 = emits [MoveAssign x, Dtor (moved_from T x)] w3"
          have res: "st = Inr ?it" "v' = (with_block (vector_of xs c) b4)\<lparr>m_size := m_size (vector_of xs c) + 1\<rparr>"
            "w' = w4"
            using run guards c1 ok1 c2 ok2 c3 ok3 c4 ok4 by (simp_all add: Emplace_def)
          have "v' = vector_of (pre @ x # mid @ [z]) c"
            using res(2) ok4 n by (simp add: with_block_def vector_of_def)
          moreover have "w' = emits ([arg_event a x, if moves T then MoveCtor z else CopyCtor z] @
                      map MoveAssign (rev mid) @ [MoveAssign x, Dtor (moved_from T x)]) w"
            using res(3) ok4 ok3 ok2 ok1 by simp
          ultimately show ?thesis
            using res(1) by simp
        qed
      qed
    qed
  qed
qed

lemma length_left_behind [simp]: "length (left_behind T vs) = length vs"
  by (simp add: left_behind_def)

lemma OverwriteData_result:
  assumes "OverwriteData T (sx @ map Some vs @ sy) (length sx) (length sx + length vs)
             (dx @ replicate (length vs) None @ dy) (length dx) w = (st, s', b', w')"
  shows "(st = Inr () \<and>
          s' = sx @ map Some (left_behind T vs) @ sy \<and>
          b' = dx @ map Some vs @ dy \<and>
          w' = emits (map (transfer_event T) vs) w) \<or>
         (st = Inl element_exception \<and>
          (\<exists>zs. length zs = length vs \<and> s' = sx @ map Some zs @ sy) \<and>
          (\<not> moves T \<longrightarrow> s' = sx @ map Some vs @ sy) \<and>
          b' = dx @ replicate (length vs) None @ dy \<and>
          leaked w' = leaked w \<and> \<not> never_throws T)"
proof (cases "moves T")
  case True
  then have "umove_loop T (length sx) (length vs) (length dx) (length dx + length ([]::'a list))
               (sx @ map Some vs @ sy)
               (dx @ map Some [] @ replicate (length vs) None @ dy) w = (st, s', b', w')"
    using assms by (simp add: OverwriteData_def uninitialized_move_def moves_def)
  from umove_loop_result[OF this] show ?thesis
    using True by (auto simp: left_behind_def transfer_event_def)
next
  case False
  obtain st1 b1 w1 where
    u: "uninitialized_copy T (sx @ map Some vs @ sy) (length sx) (length sx + length vs)
          (dx @ replicate (length vs) None @ dy) (length dx) w = (st1, b1, w1)"
    by (metis prod_cases3)
  then have res: "st = st1" "s' = sx @ map Some vs @ sy" "b' = b1" "w' = w1"
    using assms False by (simp_all add: OverwriteData_def moves_def)
  have "ucopy_loop T (sx @ map Some vs @ sy) (length sx) (length vs) (length dx)
          (length dx + length ([]::'a list))
          (dx @ map Some [] @ replicate (length vs) None @ dy) w = (st1, b1, w1)"
    using u by (simp add: uninitialized_copy_def)
  from ucopy_loop_result[OF this] show ?thesis
    using False res by (auto simp: left_behind_def transfer_event_def)
qed

lemma size_t_code [code]: "size_t n = nat (int n mod 2 ^ 64)"
  by (simp add: size_t_def nat_mod_distrib nat_power_eq)

lemma Allocate_fits:
  assumes "fits T n"
  shows "size_t (n * sizeof T) div sizeof T = n"
proof -
  have "n * sizeof T < 2 ^ 64" and "0 < sizeof T"
    using assms by (simp_all add: fits_def SIZE_MAX_def)
  then show ?thesis by (simp add: size_t_def)
qed

lemma fits_mono: "fits T n \<Longrightarrow> m \<le> n \<Longrightarrow> fits T m"
  unfolding fits_def by (meson le_trans mult_le_mono1)

lemma RawMemory_new_result:
  assumes "RawMemory_new T (Suc n) w = (r, w')" and "fits T (Suc n)"
  shows "(r = Inr \<lparr>m_buffer = replicate (Suc n) None, m_capacity = Suc n\<rparr> \<and>
          w' = emits [New (Suc n)] w) \<or>
         (r = Inl bad_alloc \<and> w' = emits [New (Suc n)] w \<and> \<not> never_throws T)"
  using assms(1) Allocate_fits[OF assms(2)]
  by (auto simp: RawMemory_new_def Allocate_def emit_as_emits dest: raises_not_never
      split: if_splits)

lemma RawMemory_dtor_free [simp]:
  "RawMemory_dtor \<lparr>m_buffer = replicate n None, m_capacity = c\<rparr> w = w"
  by (simp add: RawMemory_dtor_def Deallocate_def)

lemma Emplace_grow_core:
  assumes arg: "arg_value a xs = Some x"
    and xs1: "arg_effect T a xs = pre @ suf"
    and fit: "fits T (if length xs = 0 then 1 else length xs * 2)"
    and run: "Emplace T (length pre) a (vector_of xs (length xs)) w = (st, v', w')"
  shows "(st = Inr (length pre) \<and>
          v' = vector_of (pre @ x # suf) (if length xs = 0 then 1 else length xs * 2) \<and>
          leaked w' = leaked w) \<or>
         ((st = Inl bad_alloc \<or> st = Inl element_exception) \<and> \<not> never_throws T \<and>
          (\<exists>zs. length zs = length xs \<and> v' = vector_of zs (length xs) \<and>
                (\<not> moves T \<and> arg_effect T a xs = xs \<longrightarrow> zs = xs)))"
proof -
  let ?v = "vector_of xs (length xs)"
  let ?it = "length pre"
  have wb: "\<And>zs. length zs = length xs \<Longrightarrow> with_block ?v (map Some zs) = vector_of zs (length xs)"
    by (simp add: with_block_def vector_of_def)
  have same: "\<And>u. u = ?v \<Longrightarrow> \<exists>zs. length zs = length xs \<and> u = vector_of zs (length xs) \<and>
                (\<not> moves T \<and> arg_effect T a xs = xs \<longrightarrow> zs = xs)"
    by blast
  let ?c = "if length xs = 0 then 1 else length xs * 2"
  define k where "k = ?c - Suc (length xs)"
  have n: "length xs = length pre + length suf"
    using arg_cong[OF xs1, of length] by simp
  have c_eq: "?c = Suc (length pre + length suf + k)"
    using n by (auto simp: k_def)
  have guards: "end_ok ?v" "?it \<le> m_size ?v" "Capacity ?v = Size ?v"
    using n by simp_all
  have blk: "block_of ?v = map Some xs @ replicate 0 None"
    by simp
  have sz: "(if m_size ?v = 0 then 1 else m_size ?v * 2) = Suc (length pre + length suf + k)"
    using c_eq by auto
  note run = run[unfolded Emplace_def sz]
  have fit': "fits T (Suc (length pre + length suf + k))"
    using fit c_eq by simp
  obtain r0 w0 where
    c0: "RawMemory_new T (Suc (length pre + length suf + k)) w = (r0, w0)"
    by (metis prod.exhaust)
  from RawMemory_new_result[OF this fit'] show ?thesis
  proof
    assume f: "r0 = Inl bad_alloc \<and> w0 = emits [New (Suc (length pre + length suf + k))] w \<and>
            \<not> never_throws T"
    then have "st = Inl bad_alloc" "v' = ?v"
      using run guards c0 by simp_all
    then show ?thesis
      using f same by blast
  next
    let ?new = "\<lparr>m_buffer = replicate (Suc (length pre + length suf + k)) (None::'a option),
                 m_capacity = Suc (length pre + length suf + k)\<rparr>"
    assume ok0: "r0 = Inr ?new \<and> w0 = emits [New (Suc (length pre + length suf + k))] w"
    obtain r1 b1 w1 where c1: "construct T a (block_of ?v) w0 = (r1, b1, w1)"
      by (metis prod_cases3)
    then have "construct T a (map Some xs @ replicate 0 None) w0 = (r1, b1, w1)"
      by simp
    from construct_result[OF this arg] show ?thesis
    proof
      assume f: "r1 = Inl element_exception \<and> b1 = map Some xs @ replicate 0 None \<and>
              leaked w1 = leaked w0 \<and> \<not> never_throws T"
      then have "st = Inl element_exception" "v' = with_block ?v (map Some xs)"
        using run guards c0 ok0 c1 by simp_all
      then have "st = Inl element_exception" "v' = ?v"
        using wb[of xs] by simp_all
      then show ?thesis
        using f same by blast
    next
      assume ok1: "r1 = Inr x \<and> b1 = map Some (arg_effect T a xs) @ replicate 0 None \<and>
                   w1 = emits [arg_event a x] w0"
      then have b1: "b1 = [] @ map Some pre @ map Some suf"
        using xs1 by simp
      let ?R2 = "replicate k (None::'a option)"
      have new0: "m_buffer ?new = replicate (length pre) None @ None # replicate (length suf) None @ ?R2"
        by (simp add: replicate_app_Cons_same flip: replicate_add)
      obtain r2 b2 w2 where c2: "place ?it x (m_buffer ?new) w1 = (r2, b2, w2)"
        by (metis prod_cases3)
      have "place (length (replicate (length pre) (None::'a option))) x
              (replicate (length pre) None @ None # replicate (length suf) None @ ?R2) w1 =
            (Inr (), replicate (length pre) None @ Some x # replicate (length suf) None @ ?R2, w1)"
        by (rule place_free)
      then have ok2: "r2 = Inr ()" "b2 = [] @ replicate (length pre) None @ Some x # replicate (length suf) None @ ?R2"
        "w2 = w1"
        using c2 new0 by simp_all
      obtain r3 o3 b3 w3 where c3: "OverwriteData T b1 0 ?it b2 0 w2 = (r3, o3, b3, w3)"
        by (metis prod_cases4)
      then have "OverwriteData T ([] @ map Some pre @ map Some suf) (length ([]::'a option list))
                   (length ([]::'a option list) + length pre)
                   ([] @ replicate (length pre) None @ Some x # replicate (length suf) None @ ?R2)
                   (length ([]::'a option list)) w2 = (r3, o3, b3, w3)"
        using b1 ok2 by simp
      from OverwriteData_result[OF this] show ?thesis
      proof
        assume f: "r3 = Inl element_exception \<and>
                (\<exists>zs. length zs = length pre \<and> o3 = [] @ map Some zs @ map Some suf) \<and>
                (\<not> moves T \<longrightarrow> o3 = [] @ map Some pre @ map Some suf) \<and>
                b3 = [] @ replicate (length pre) None @ Some x # replicate (length suf) None @ ?R2 \<and>
                leaked w3 = leaked w2 \<and> \<not> never_throws T"
        then obtain zs where zs: "length zs = length pre" "o3 = map Some (zs @ suf)"
          by auto
        have res: "st = Inl element_exception" "v' = with_block ?v o3"
          using run guards c0 ok0 c1 ok1 c2 ok2 c3 f by simp_all
        have "length (zs @ suf) = length xs \<and> v' = vector_of (zs @ suf) (length xs) \<and>
              (\<not> moves T \<and> arg_effect T a xs = xs \<longrightarrow> zs @ suf = xs)"
          using res(2) zs f wb[of "zs @ suf"] n xs1 by auto
        then show ?thesis
          using res(1) f by blast
      next
        let ?pre' = "left_behind T pre"
        assume ok3: "r3 = Inr () \<and> o3 = [] @ map Some ?pre' @ map Some suf \<and>
                b3 = [] @ map Some pre @ Some x # replicate (length suf) None @ ?R2 \<and>
                w3 = emits (map (transfer_event T) pre) w2"
        obtain r4 o4 b4 w4 where
          c4: "OverwriteData T o3 ?it (m_size ?v) b3 (?it + 1) w3 = (r4, o4, b4, w4)"
          by (metis prod_cases4)
        then have "OverwriteData T (map Some ?pre' @ map Some suf @ []) (length (map Some ?pre'))
                     (length (map Some ?pre') + length suf)
                     ((map Some pre @ [Some x]) @ replicate (length suf) None @ ?R2)
                     (length (map Some pre @ [Some x])) w3 = (r4, o4, b4, w4)"
          using ok3 n by simp
        from OverwriteData_result[OF this] show ?thesis
        proof
          assume f: "r4 = Inl element_exception \<and>
                (\<exists>zs. length zs = length suf \<and> o4 = map Some ?pre' @ map Some zs @ []) \<and>
                (\<not> moves T \<longrightarrow> o4 = map Some ?pre' @ map Some suf @ []) \<and>
                b4 = (map Some pre @ [Some x]) @ replicate (length suf) None @ ?R2 \<and>
                leaked w4 = leaked w3 \<and> \<not> never_throws T"
          then obtain zs where zs: "length zs = length suf" "o4 = map Some (?pre' @ zs)"
            by auto
          have res: "st = Inl element_exception" "v' = with_block ?v o4"
            using run guards c0 ok0 c1 ok1 c2 ok2 c3 ok3 c4 f by simp_all
          have "length (?pre' @ zs) = length xs \<and> v' = vector_of (?pre' @ zs) (length xs) \<and>
                (\<not> moves T \<and> arg_effect T a xs = xs \<longrightarrow> ?pre' @ zs = xs)"
            using res(2) zs f wb[of "?pre' @ zs"] n xs1 by (auto simp: left_behind_def)
          then show ?thesis
            using res(1) f by blast
        next
          let ?suf' = "left_behind T suf"
          assume ok4: "r4 = Inr () \<and> o4 = map Some ?pre' @ map Some ?suf' @ [] \<and>
                b4 = (map Some pre @ [Some x]) @ map Some suf @ ?R2 \<and>
                w4 = emits (map (transfer_event T) suf) w3"
          obtain r5 o5 w5 where c5: "destroy 0 (m_size ?v) o4 w4 = (r5, o5, w5)"
            by (metis prod_cases3)
          have "destroy (length ([]::'a option list))
                  (length ([]::'a option list) + length (?pre' @ ?suf'))
                  ([] @ map Some (?pre' @ ?suf') @ []) w4 =
                (Inr (), [] @ replicate (length (?pre' @ ?suf')) None @ [],
                 emits (map Dtor (?pre' @ ?suf')) w4)"
            by (rule destroy_live)
          then have ok5: "r5 = Inr ()" "o5 = replicate (length xs) None"
            "w5 = emits (map Dtor (?pre' @ ?suf')) w4"
            using c5 ok4 n by (simp_all split: if_splits)
          have res: "st = Inr ?it"
            "v' = \<lparr>m_data = ?new\<lparr>m_buffer := b4\<rparr>, m_size = m_size ?v + 1\<rparr>"
            "w' = RawMemory_dtor ((m_data ?v)\<lparr>m_buffer := o5\<rparr>) w5"
            using run guards c0 ok0 c1 ok1 c2 ok2 c3 ok3 c4 ok4 c5 ok5
            by simp_all
          have "v' = vector_of (pre @ x # suf) ?c"
            using res(2) ok4 n c_eq by (simp add: vector_of_def)
          moreover have "leaked w' = leaked w"
            using res(3) ok5 ok4 ok3 ok2 ok1 ok0 by (simp add: vector_of_def)
          ultimately show ?thesis
            using res(1) by simp
        qed
      qed
    qed
  qed
qed

lemma Emplace_result:
  assumes c: "length xs \<le> c" and it: "it \<le> length xs" and arg: "arg_value a xs = Some x"
    and fit: "length xs < c \<or> fits T (grown c (length xs))"
    and run: "Emplace T it a (vector_of xs c) w = (st, v', w')"
  shows "(st = Inr it \<and>
          v' = vector_of (take it (arg_effect T a xs) @ x # drop it (arg_effect T a xs))
                 (grown c (length xs)) \<and>
          leaked w' = leaked w) \<or>
         ((st = Inl bad_alloc \<or> st = Inl element_exception) \<and> \<not> never_throws T \<and>
          ((it < length xs \<and> length xs < c) \<or>
           (\<exists>zs. length zs = length xs \<and> v' = vector_of zs c \<and>
                 (\<not> moves T \<and> arg_effect T a xs = xs \<longrightarrow> zs = xs))))"
proof -
  let ?xs1 = "arg_effect T a xs"
  have len: "length ?xs1 = length xs" by simp
  consider (grow) "c = length xs" | (at_end) "length xs < c" "it = length xs"
    | (mid) "length xs < c" "it < length xs"
    using c it by linarith
  then show ?thesis
  proof cases
    case grow
    have "?xs1 = take it ?xs1 @ drop it ?xs1" by simp
    moreover have "length (take it ?xs1) = it" using it by simp
    ultimately show ?thesis
      using Emplace_grow_core[OF arg, of T "take it ?xs1" "drop it ?xs1" w st v' w'] run grow fit
      by (auto simp: grown_def)
  next
    case at_end
    then show ?thesis
      using Emplace_end_result[OF at_end(1) arg, of T w st v' w'] run
      by (auto simp: grown_def)
  next
    case mid
    have ne: "?xs1 \<noteq> []"
    proof
      assume "?xs1 = []"
      then have "length xs = 0" using len by (simp del: length_arg_effect)
      then show False using mid by simp
    qed
    let ?pre = "take it ?xs1" and ?mid = "drop it (butlast ?xs1)" and ?z = "last ?xs1"
    have "take it ?xs1 = take it (butlast ?xs1)"
      using mid len by (simp add: take_butlast)
    then have "?pre @ ?mid = butlast ?xs1" by simp
    then have dec: "?xs1 = ?pre @ ?mid @ [?z]"
      using ne by (metis append_assoc append_butlast_last_id)
    have lp: "length ?pre = it" using mid by simp
    have "drop it ?xs1 = ?mid @ [?z]"
      using dec lp by (metis append_eq_conv_conj)
    then show ?thesis
      using Emplace_mid_core[OF mid(1) arg dec, of w st v' w'] run lp mid
      by (auto simp: grown_def)
  qed
qed

lemma Erase_result:
  assumes c: "length xs \<le> c" and it: "it < length xs"
    and run: "Erase T it (vector_of xs c) w = (st, v', w')"
  shows "(st = Inr it \<and> v' = vector_of (take it xs @ drop (Suc it) xs) c \<and>
          leaked w' = leaked w) \<or>
         (st = Inl element_exception \<and> \<not> never_throws T \<and> leaked w' = leaked w \<and>
          (\<exists>zs. length zs = length xs \<and> v' = vector_of zs c))"
proof -
  let ?v = "vector_of xs c"
  let ?R = "replicate (c - length xs) (None::'a option)"
  define pre where "pre = take it xs"
  define y where "y = xs ! it"
  define suf where "suf = drop (Suc it) xs"
  have xs: "xs = pre @ y # suf"
    using it by (simp add: pre_def y_def suf_def id_take_nth_drop)
  have lp: "length pre = it" using it by (simp add: pre_def)
  have n: "length xs = Suc (it + length suf)" using xs lp by simp
  have guards: "end_ok ?v" "it < m_size ?v" using c it by simp_all
  have blk: "block_of ?v = map Some pre @ Some y # map Some suf @ ?R"
    using xs by simp
  note run = run[unfolded Erase_def]
  obtain r1 b1 w1 where
    c1: "(if is_nothrow_move_constructible T \<or> \<not> is_copy_constructible T
          then move_range T (it + 1) (m_size ?v) it (block_of ?v) w
          else copy_range T (it + 1) (m_size ?v) it (block_of ?v) w) = (r1, b1, w1)"
    by (metis prod_cases3)
  have "\<exists>hole evs. (r1 = Inr () \<and> b1 = map Some pre @ map Some suf @ Some hole # ?R \<and>
           w1 = emits evs w) \<or>
        (r1 = Inl element_exception \<and> leaked w1 = leaked w \<and> \<not> never_throws T \<and>
         (\<exists>zs. length zs = Suc (length suf) \<and> b1 = map Some pre @ map Some zs @ ?R))"
  proof (cases "is_nothrow_move_constructible T \<or> \<not> is_copy_constructible T")
    case True
    then have "move_loop T (Suc (length (map Some pre))) (length suf) (length (map Some pre))
                 (map Some pre @ Some y # map Some suf @ ?R) w = (r1, b1, w1)"
      using c1 blk n lp by (simp add: move_range_def)
    from move_loop_result[OF this] show ?thesis by auto
  next
    case False
    then have "copy_loop T (Suc (length (map Some pre))) (length suf) (length (map Some pre))
                 (map Some pre @ Some y # map Some suf @ ?R) w = (r1, b1, w1)"
      using c1 blk n lp by (simp add: copy_range_def)
    from copy_loop_result[OF this] show ?thesis by auto
  qed
  then obtain hole evs where
    "(r1 = Inr () \<and> b1 = map Some pre @ map Some suf @ Some hole # ?R \<and> w1 = emits evs w) \<or>
     (r1 = Inl element_exception \<and> leaked w1 = leaked w \<and> \<not> never_throws T \<and>
      (\<exists>zs. length zs = Suc (length suf) \<and> b1 = map Some pre @ map Some zs @ ?R))"
    by blast
  then show ?thesis
  proof
    assume f: "r1 = Inl element_exception \<and> leaked w1 = leaked w \<and> \<not> never_throws T \<and>
      (\<exists>zs. length zs = Suc (length suf) \<and> b1 = map Some pre @ map Some zs @ ?R)"
    then obtain zs where zs: "length zs = Suc (length suf)" "b1 = map Some (pre @ zs) @ ?R"
      by auto
    have res: "st = Inl element_exception" "v' = with_block ?v b1" "w' = w1"
      using run guards c1 f by simp_all
    have "length (pre @ zs) = length xs"
      using zs n lp by simp
    then have "length (pre @ zs) = length xs \<and> v' = vector_of (pre @ zs) c"
      using res(2) zs(2) with_block_vector_of[of "pre @ zs" xs c] by simp
    then show ?thesis
      using res f by blast
  next
    assume ok1: "r1 = Inr () \<and> b1 = map Some pre @ map Some suf @ Some hole # ?R \<and>
                 w1 = emits evs w"
    have "destroy_n (length (map Some (pre @ suf))) (length [hole])
            (map Some (pre @ suf) @ map Some [hole] @ ?R) w1 =
          (Inr (), map Some (pre @ suf) @ replicate (length [hole]) None @ ?R,
           emits (map Dtor [hole]) w1)"
      by (rule destroy_n_live)
    then have d: "destroy_n (m_size ?v - 1) 1 b1 w1 =
          (Inr (), map Some (pre @ suf) @ None # ?R, emits [Dtor hole] w1)"
      using ok1 n lp by simp
    have res: "st = Inr it"
      "v' = (with_block ?v (map Some (pre @ suf) @ None # ?R))\<lparr>m_size := m_size ?v - 1\<rparr>"
      "w' = emits [Dtor hole] w1"
      using run guards c1 ok1 d by simp_all
    have "None # ?R = replicate (c - (it + length suf)) (None::'a option)"
      using c n by (simp add: Suc_diff_le flip: replicate_Suc)
    then have "v' = vector_of (pre @ suf) c"
      using res(2) n lp by (simp add: with_block_def vector_of_def)
    then show ?thesis
      using res ok1 by (simp add: pre_def suf_def)
  qed
qed

lemma Resize_shrink:
  assumes c: "length xs \<le> c" and k: "k < length xs"
  shows "Resize T k (vector_of xs c) w =
           (Inr (), vector_of (take k xs) c, emits (map Dtor (drop k xs)) w)"
proof -
  let ?v = "vector_of xs c"
  let ?R = "replicate (c - length xs) (None::'a option)"
  have blk: "block_of ?v = map Some (take k xs) @ map Some (drop k xs) @ ?R"
    by (simp flip: map_append)
  have "destroy (length (map Some (take k xs)))
          (length (map Some (take k xs)) + length (drop k xs))
          (map Some (take k xs) @ map Some (drop k xs) @ ?R) w =
        (Inr (), map Some (take k xs) @ replicate (length (drop k xs)) None @ ?R,
         emits (map Dtor (drop k xs)) w)"
    by (rule destroy_live)
  then have d: "destroy k (m_size ?v) (block_of ?v) w =
        (Inr (), map Some (take k xs) @ replicate (length xs - k) None @ ?R,
         emits (map Dtor (drop k xs)) w)"
    using k unfolding blk by (simp add: min_def)
  have "replicate (length xs - k) None @ ?R = replicate (c - k) (None::'a option)"
    using c k by (simp flip: replicate_add)
  then have "(with_block ?v (map Some (take k xs) @ replicate (length xs - k) None @ ?R))
               \<lparr>m_size := k\<rparr> = vector_of (take k xs) c"
    using k by (simp add: with_block_def vector_of_def min_def)
  then show ?thesis
    using c k d by (simp add: Resize_def)
qed

lemma Resize_within:
  assumes c: "k \<le> c" and k: "length xs \<le> k"
    and run: "Resize T k (vector_of xs c) w = (st, v', w')"
  shows "(st = Inr () \<and> v' = vector_of (xs @ replicate (k - length xs) (value_init T)) c \<and>
          leaked w' = leaked w) \<or>
         (st = Inl element_exception \<and> v' = vector_of xs c \<and> leaked w' = leaked w \<and>
          \<not> never_throws T)"
proof -
  let ?v = "vector_of xs c"
  let ?R = "replicate (c - k) (None::'a option)"
  have blk: "block_of ?v = map Some xs @ map Some [] @ replicate (k - length xs) None @ ?R"
    using c k by (simp flip: replicate_add)
  have guards: "\<not> k < m_size ?v" "\<not> Capacity ?v < k" "end_ok ?v"
    using c k by simp_all
  obtain r1 b1 w1 where
    c1: "uninitialized_value_construct T (m_size ?v) k (block_of ?v) w = (r1, b1, w1)"
    by (metis prod_cases3)
  then have "uvc_loop T (length (map Some xs)) (length (map Some xs) + length ([]::'a list))
               (k - length xs)
               (map Some xs @ map Some [] @ replicate (k - length xs) None @ ?R) w = (r1, b1, w1)"
    using k unfolding blk by (simp add: uninitialized_value_construct_def)
  from uvc_loop_result[OF this] show ?thesis
  proof
    assume ok: "r1 = Inr () \<and>
       b1 = map Some xs @ map Some [] @ replicate (k - length xs) (Some (value_init T)) @ ?R \<and>
       w1 = emits (replicate (k - length xs) ValueCtor) w"
    then have "st = Inr ()" "v' = (with_block ?v b1)\<lparr>m_size := k\<rparr>" "w' = w1"
      using run guards c1 by (simp_all add: Resize_def)
    moreover have "(with_block ?v b1)\<lparr>m_size := k\<rparr> =
                   vector_of (xs @ replicate (k - length xs) (value_init T)) c"
      using ok c k by (simp add: with_block_def vector_of_def)
    ultimately show ?thesis using ok by simp
  next
    assume f: "r1 = Inl element_exception \<and>
       b1 = map Some xs @ replicate (length ([]::'a list) + (k - length xs)) None @ ?R \<and>
       leaked w1 = leaked w \<and> \<not> never_throws T"
    then have "st = Inl element_exception" "v' = with_block ?v b1" "w' = w1"
      using run guards c1 by (simp_all add: Resize_def)
    moreover have "with_block ?v b1 = ?v"
      using f c k by (simp add: with_block_def vector_of_def flip: replicate_add)
    ultimately show ?thesis using f by simp
  qed
qed

lemma Resize_grow:
  assumes c: "length xs \<le> c" and k: "c < k" and fit: "fits T k"
    and run: "Resize T k (vector_of xs c) w = (st, v', w')"
  shows "(st = Inr () \<and> v' = vector_of (xs @ replicate (k - length xs) (value_init T)) k \<and>
          leaked w' = leaked w) \<or>
         ((st = Inl bad_alloc \<or> st = Inl element_exception) \<and> \<not> never_throws T \<and>
          (\<exists>zs. length zs = length xs \<and> v' = vector_of zs c \<and> (\<not> moves T \<longrightarrow> zs = xs)))"
proof -
  let ?v = "vector_of xs c"
  let ?R = "replicate (c - length xs) (None::'a option)"
  let ?d = "k - length xs"
  have same: "\<And>u. u = ?v \<Longrightarrow>
                \<exists>zs. length zs = length xs \<and> u = vector_of zs c \<and> (\<not> moves T \<longrightarrow> zs = xs)"
    by blast
  let ?D = "replicate ?d (Some (value_init T))"
  obtain j where j: "k = Suc j"
    using k by (cases k) simp_all
  have guards: "\<not> k < m_size ?v" "Capacity ?v < k" "end_ok ?v"
    using c k by simp_all
  note run = run[unfolded Resize_def]
  obtain r0 w0 where c0: "RawMemory_new T (Suc j) w = (r0, w0)"
    by (metis prod.exhaust)
  from RawMemory_new_result[OF this fit[unfolded j]] show ?thesis
  proof
    assume f: "r0 = Inl bad_alloc \<and> w0 = emits [New (Suc j)] w \<and> \<not> never_throws T"
    then have "st = Inl bad_alloc" "v' = ?v"
      using run guards c0 j by simp_all
    then show ?thesis
      using f same by blast
  next
    let ?new = "\<lparr>m_buffer = replicate (Suc j) (None::'a option), m_capacity = Suc j\<rparr>"
    assume ok0: "r0 = Inr ?new \<and> w0 = emits [New (Suc j)] w"
    have pk: "plus_ok ?new (m_size ?v)" "plus_ok ?new k"
      using c k j by (simp_all add: plus_ok_def)
    have new0: "m_buffer ?new = replicate (length xs) None @ map Some [] @ replicate ?d None @ []"
      using c k j by (simp flip: replicate_add)
    obtain r1 b1 w1 where
      c1: "uninitialized_value_construct T (m_size ?v) k (m_buffer ?new) w0 = (r1, b1, w1)"
      by (metis prod_cases3)
    then have "uvc_loop T (length (replicate (length xs) (None::'a option)))
                 (length (replicate (length xs) (None::'a option)) + length ([]::'a list)) ?d
                 (replicate (length xs) None @ map Some [] @ replicate ?d None @ []) w0
               = (r1, b1, w1)"
      using c k unfolding new0 by (simp add: uninitialized_value_construct_def)
    from uvc_loop_result[OF this] show ?thesis
    proof
      assume f: "r1 = Inl element_exception \<and>
         b1 = replicate (length xs) None @ replicate (length ([]::'a list) + ?d) None @ [] \<and>
         leaked w1 = leaked w0 \<and> \<not> never_throws T"
      then have "st = Inl element_exception" "v' = ?v"
        using run guards c0 ok0 pk c1 j by simp_all
      then show ?thesis
        using f same by blast
    next
      assume ok1: "r1 = Inr () \<and>
         b1 = replicate (length xs) None @ map Some [] @ ?D @ [] \<and>
         w1 = emits (replicate ?d ValueCtor) w0"
      obtain r2 o2 b2 w2 where
        c2: "OverwriteData T (block_of ?v) 0 (m_size ?v) b1 0 w1 = (r2, o2, b2, w2)"
        by (metis prod_cases4)
      then have "OverwriteData T ([] @ map Some xs @ ?R) (length ([]::'a option list))
                   (length ([]::'a option list) + length xs)
                   ([] @ replicate (length xs) None @ ?D)
                   (length ([]::'a option list)) w1 = (r2, o2, b2, w2)"
        using ok1 by simp
      from OverwriteData_result[OF this] show ?thesis
      proof
        assume f: "r2 = Inl element_exception \<and>
                (\<exists>zs. length zs = length xs \<and> o2 = [] @ map Some zs @ ?R) \<and>
                (\<not> moves T \<longrightarrow> o2 = [] @ map Some xs @ ?R) \<and>
                b2 = [] @ replicate (length xs) None @ ?D \<and>
                leaked w2 = leaked w1 \<and> \<not> never_throws T"
        then obtain zs where zs: "length zs = length xs" "o2 = map Some zs @ ?R"
          by auto
        have res: "st = Inl element_exception" "v' = with_block ?v o2"
          using run guards c0 ok0 pk c1 ok1 c2 f j by simp_all
        have "length zs = length xs \<and> v' = vector_of zs c \<and> (\<not> moves T \<longrightarrow> zs = xs)"
          using res(2) zs f with_block_vector_of[of zs xs c] by auto
        then show ?thesis
          using res(1) f by blast
      next
        assume ok2: "r2 = Inr () \<and> o2 = [] @ map Some (left_behind T xs) @ ?R \<and>
                b2 = [] @ map Some xs @ ?D \<and>
                w2 = emits (map (transfer_event T) xs) w1"
        obtain r3 o3 w3 where c3: "destroy 0 (m_size ?v) o2 w2 = (r3, o3, w3)"
          by (metis prod_cases3)
        have "destroy (length ([]::'a option list))
                (length ([]::'a option list) + length (left_behind T xs))
                ([] @ map Some (left_behind T xs) @ ?R) w2 =
              (Inr (), [] @ replicate (length (left_behind T xs)) None @ ?R,
               emits (map Dtor (left_behind T xs)) w2)"
          by (rule destroy_live)
        then have ok3: "r3 = Inr ()" "o3 = replicate (length xs) None @ ?R"
          "w3 = emits (map Dtor (left_behind T xs)) w2"
          using c3 ok2 by simp_all
        have res: "st = Inr ()"
          "v' = \<lparr>m_data = ?new\<lparr>m_buffer := b2\<rparr>, m_size = k\<rparr>"
          "w' = RawMemory_dtor ((m_data ?v)\<lparr>m_buffer := o3\<rparr>) w3"
          using run guards c0 ok0 pk c1 ok1 c2 ok2 c3 ok3 j by simp_all
        have "v' = vector_of (xs @ replicate ?d (value_init T)) k"
          using res(2) ok2 c k j by (simp add: vector_of_def)
        moreover have "leaked w' = leaked w"
          using res(3) ok3 ok2 ok1 ok0 by (simp add: vector_of_def flip: replicate_add)
        ultimately show ?thesis
          using res(1) by simp
      qed
    qed
  qed
qed

lemma Resize_result:
  assumes c: "length xs \<le> c" and fit: "k \<le> c \<or> fits T k"
    and run: "Resize T k (vector_of xs c) w = (st, v', w')"
  shows "(st = Inr () \<and>
          v' = vector_of (take k xs @ replicate (k - length xs) (value_init T)) (max c k) \<and>
          leaked w' = leaked w) \<or>
         ((st = Inl bad_alloc \<or> st = Inl element_exception) \<and> length xs < k \<and>
          \<not> never_throws T \<and>
          (\<exists>zs. length zs = length xs \<and> v' = vector_of zs c \<and> (\<not> moves T \<longrightarrow> zs = xs)))"
proof -
  consider (shrink) "k < length xs" | (within) "length xs \<le> k" "k \<le> c" | (grow) "c < k"
    by linarith
  then show ?thesis
  proof cases
    case shrink
    then show ?thesis
      using run c Resize_shrink[OF c shrink, of T w] by (auto simp: max_def)
  next
    case within
    have "st = Inl element_exception \<Longrightarrow> length xs < k"
    proof (rule ccontr)
      assume e: "st = Inl element_exception" and "\<not> length xs < k"
      then have "k = length xs" using within by simp
      then show False
        using run c e
        by (simp add: Resize_def uninitialized_value_construct_def)
    qed
    then show ?thesis
      using Resize_within[OF within(2) within(1) run] within by (auto simp: max_def)
  next
    case grow
    then show ?thesis
      using Resize_grow[OF c grow _ run] c fit by (auto simp: max_def)
  qed
qed

lemma Vector_inv_cases:
  assumes "Vector_inv v"
  obtains xs c where "v = vector_of xs c" "length xs \<le> c" "content v = xs" "Capacity v = c"
    "m_size v = length xs"
  using Vector_inv_vector_of[OF assms] by (metis content_vector_of Capacity_vector_of)

lemma grown_ge: "n \<le> c \<Longrightarrow> c \<le> grown c n \<and> Suc n \<le> grown c n"
  by (auto simp: grown_def)

lemma Emplace_mid_result:
  assumes c: "length xs < c" and it: "it < length xs" and arg: "arg_value a xs = Some x"
    and run: "Emplace T it a (vector_of xs c) w = (st, v', w')"
  shows "(st = Inr it \<and>
          v' = vector_of (take it (arg_effect T a xs) @ x # drop it (arg_effect T a xs)) c \<and>
          w' = emits ([arg_event a x, if moves T then MoveCtor (last (arg_effect T a xs))
                                      else CopyCtor (last (arg_effect T a xs))] @
                      map MoveAssign (rev (drop it (butlast (arg_effect T a xs)))) @
                      [MoveAssign x, Dtor (moved_from T x)]) w) \<or>
         (st = Inl element_exception \<and> \<not> never_throws T)"
proof -
  let ?xs1 = "arg_effect T a xs"
  have len: "length ?xs1 = length xs" by simp
  have ne: "?xs1 \<noteq> []"
  proof
    assume "?xs1 = []"
    then have "length xs = 0" using len by (simp del: length_arg_effect)
    then show False using it by simp
  qed
  let ?pre = "take it ?xs1" and ?mid = "drop it (butlast ?xs1)" and ?z = "last ?xs1"
  have "take it ?xs1 = take it (butlast ?xs1)"
    using it len by (simp add: take_butlast)
  then have "?pre @ ?mid = butlast ?xs1" by simp
  then have dec: "?xs1 = ?pre @ ?mid @ [?z]"
    using ne by (metis append_assoc append_butlast_last_id)
  have lp: "length ?pre = it" using it by simp
  have "drop it ?xs1 = ?mid @ [?z]"
    using dec lp by (metis append_eq_conv_conj)
  then show ?thesis
    using Emplace_mid_core[OF c arg dec, of w st v' w'] run lp
    by auto
qed




lemma refers_arg:
  assumes "refers x xs"
  obtains y where "arg_value (forward x) xs = Some y"
  using assms by (induction x xs rule: refers.induct) simp_all

lemma Insert_result:
  assumes c: "length xs \<le> c" and p: "p \<le> length xs"
    and arg: "arg_value (forward x) xs = Some y"
    and fit: "length xs < c \<or> fits T (grown c (length xs))"
    and run: "Insert T p x (vector_of xs c) w = (st, v', w')"
  shows "(st = Inr p \<and>
          v' = vector_of (take p (arg_effect T (forward x) xs) @ y #
                          drop p (arg_effect T (forward x) xs)) (grown c (length xs)) \<and>
          leaked w' = leaked w) \<or>
         ((st = Inl bad_alloc \<or> st = Inl element_exception) \<and> \<not> never_throws T)"
  using Emplace_result[OF c p arg fit run[unfolded Insert_def]] by auto

section \<open>Every operation on a well-formed vector\<close>

lemma Deallocate_free [simp]: "Deallocate (replicate n None) w = w"
  by (simp add: Deallocate_def)

lemma unwind_RawMemory_free [simp]:
  "unwind_RawMemory e \<lparr>m_buffer = replicate n None, m_capacity = c\<rparr> w = w"
  by (simp add: unwind_RawMemory_def)

lemma RawMemory_new_zero [simp]:
  "RawMemory_new T 0 w = (Inr \<lparr>m_buffer = [], m_capacity = 0\<rparr>, w)"
  by (simp add: RawMemory_new_def Allocate_def)

lemma RawMemory_new_cases:
  assumes "RawMemory_new T n w = (r, w')" and "n = 0 \<or> fits T n"
  shows "(r = Inr \<lparr>m_buffer = replicate n None, m_capacity = n\<rparr> \<and> leaked w' = leaked w) \<or>
         (r = Inl bad_alloc \<and> leaked w' = leaked w \<and> 0 < n \<and> \<not> never_throws T)"
proof (cases n)
  case 0
  then show ?thesis using assms by simp
next
  case (Suc j)
  then show ?thesis
    using RawMemory_new_result[of T j w r w'] assms by auto
qed

lemma Deallocate_Nil [simp]: "Deallocate [] w = w"
  by (simp add: Deallocate_def)

lemma Deallocate_free_append [simp]: "Deallocate (replicate n None @ b) w = Deallocate b w"
  by (simp add: Deallocate_def)

lemma Reserve_result:
  assumes c: "length xs \<le> c" and fit: "n \<le> c \<or> fits T n"
    and run: "Reserve T n (vector_of xs c) w = (st, v', w')"
  shows "(st = Inr () \<and> v' = vector_of xs (max c n) \<and> leaked w' = leaked w) \<or>
         ((st = Inl bad_alloc \<or> st = Inl element_exception) \<and> c < n \<and> \<not> never_throws T \<and>
          leaked w' = leaked w \<and>
          (\<exists>zs. length zs = length xs \<and> v' = vector_of zs c \<and> (\<not> moves T \<longrightarrow> zs = xs)))"
proof (cases "n \<le> c")
  case True
  then show ?thesis
    using run by (simp add: Reserve_def max_def)
next
  case False
  let ?v = "vector_of xs c"
  let ?R = "replicate (c - length xs) (None::'a option)"
  obtain j where j: "n = Suc j"
    using False by (cases n) simp_all
  let ?R' = "replicate (Suc j - length xs) (None::'a option)"
  have same: "\<And>u. u = ?v \<Longrightarrow>
                \<exists>zs. length zs = length xs \<and> u = vector_of zs c \<and> (\<not> moves T \<longrightarrow> zs = xs)"
    by blast
  have guards: "\<not> Suc j \<le> Capacity ?v" "end_ok ?v"
    using False c j by simp_all
  note run = run[unfolded Reserve_def j]
  have fit': "fits T (Suc j)"
    using fit False j by simp
  obtain r0 w0 where c0: "RawMemory_new T (Suc j) w = (r0, w0)"
    by (metis prod.exhaust)
  from RawMemory_new_result[OF this fit'] show ?thesis
  proof
    assume f: "r0 = Inl bad_alloc \<and> w0 = emits [New (Suc j)] w \<and> \<not> never_throws T"
    then have "st = Inl bad_alloc" "v' = ?v" "w' = w0"
      using run guards c0 by simp_all
    then show ?thesis
      using f same False by auto
  next
    let ?new = "\<lparr>m_buffer = replicate (Suc j) (None::'a option), m_capacity = Suc j\<rparr>"
    assume ok0: "r0 = Inr ?new \<and> w0 = emits [New (Suc j)] w"
    have new0: "m_buffer ?new = [] @ replicate (length xs) None @ ?R'"
      using False c j by (simp flip: replicate_add)
    obtain r1 o1 b1 w1 where
      c1: "OverwriteData T (block_of ?v) 0 (m_size ?v) (m_buffer ?new) 0 w0 = (r1, o1, b1, w1)"
      by (metis prod_cases4)
    then have "OverwriteData T ([] @ map Some xs @ ?R) (length ([]::'a option list))
                 (length ([]::'a option list) + length xs)
                 ([] @ replicate (length xs) None @ ?R')
                 (length ([]::'a option list)) w0 = (r1, o1, b1, w1)"
      unfolding new0 by simp
    from OverwriteData_result[OF this] show ?thesis
    proof
      assume f: "r1 = Inl element_exception \<and>
              (\<exists>zs. length zs = length xs \<and> o1 = [] @ map Some zs @ ?R) \<and>
              (\<not> moves T \<longrightarrow> o1 = [] @ map Some xs @ ?R) \<and>
              b1 = [] @ replicate (length xs) None @ ?R' \<and>
              leaked w1 = leaked w0 \<and> \<not> never_throws T"
      then obtain zs where zs: "length zs = length xs" "o1 = map Some zs @ ?R"
        by auto
      have res: "st = Inl element_exception" "v' = with_block ?v o1"
        "w' = unwind_RawMemory element_exception (?new\<lparr>m_buffer := b1\<rparr>) w1"
        using run guards c0 ok0 c1 f by simp_all
      have "w' = w1"
        using res(3) f
        by (simp add: unwind_RawMemory_def is_exception_def RawMemory_dtor_def)
      moreover have "length zs = length xs \<and> v' = vector_of zs c \<and> (\<not> moves T \<longrightarrow> zs = xs)"
        using res(2) zs f with_block_vector_of[of zs xs c] by auto
      ultimately show ?thesis
        using res f ok0 False by auto
    next
      assume ok1: "r1 = Inr () \<and> o1 = [] @ map Some (left_behind T xs) @ ?R \<and>
              b1 = [] @ map Some xs @ ?R' \<and>
              w1 = emits (map (transfer_event T) xs) w0"
      have "destroy_n (length ([]::'a option list)) (length (left_behind T xs))
              ([] @ map Some (left_behind T xs) @ ?R) w1 =
            (Inr (), [] @ replicate (length (left_behind T xs)) None @ ?R,
             emits (map Dtor (left_behind T xs)) w1)"
        by (rule destroy_n_live)
      then have d: "destroy_n 0 (m_size ?v) o1 w1 =
            (Inr (), replicate (length xs) None @ ?R, emits (map Dtor (left_behind T xs)) w1)"
        using ok1 by simp
      have res: "st = Inr ()" "v' = ?v\<lparr>m_data := ?new\<lparr>m_buffer := b1\<rparr>\<rparr>"
        "w' = RawMemory_dtor ((m_data ?v)\<lparr>m_buffer := replicate (length xs) None @ ?R\<rparr>)
                (emits (map Dtor (left_behind T xs)) w1)"
        using run guards c0 ok0 c1 ok1 d by simp_all
      have "v' = vector_of xs (max c n)"
        using res(2) ok1 False j by (simp add: vector_of_def max_def)
      moreover have "leaked w' = leaked w"
        using res(3) ok1 ok0 by (simp add: vector_of_def RawMemory_dtor_def)
      ultimately show ?thesis
        using res(1) by simp
    qed
  qed
qed

lemma PopBack_result:
  assumes c: "length xs \<le> c"
  shows "PopBack (vector_of xs c) w =
           (if xs = [] then (Inl assertion_failure, vector_of xs c, w)
            else (Inr (), vector_of (butlast xs) c, emits [Dtor (last xs)] w))"
proof (cases xs rule: rev_cases)
  case Nil
  then show ?thesis by (simp add: PopBack_def)
next
  case (snoc ys z)
  let ?v = "vector_of (ys @ [z]) c"
  let ?R = "replicate (c - Suc (length ys)) (None::'a option)"
  have "destroy_n (length (map Some ys)) (length [z]) (map Some ys @ map Some [z] @ ?R) w =
        (Inr (), map Some ys @ replicate (length [z]) None @ ?R, emits (map Dtor [z]) w)"
    by (rule destroy_n_live)
  then have d: "destroy_n (m_size ?v - 1) 1 (block_of ?v) w =
        (Inr (), map Some ys @ None # ?R, emits [Dtor z] w)"
    by simp
  have "None # ?R = replicate (c - length ys) (None::'a option)"
    using c snoc by (simp add: Suc_diff_le flip: replicate_Suc)
  then have "(with_block ?v (map Some ys @ None # ?R))\<lparr>m_size := m_size ?v - 1\<rparr> =
        vector_of ys c"
    by (simp add: with_block_def vector_of_def)
  then show ?thesis
    using snoc c d by (simp add: PopBack_def del: block_of_vector_of)
qed


lemma Vector_sized_result:
  assumes run: "Vector_sized T n w = (r, w')" and fit: "n = 0 \<or> fits T n"
  shows "(r = Inr (vector_of (replicate n (value_init T)) n) \<and> leaked w' = leaked w) \<or>
         ((r = Inl bad_alloc \<or> r = Inl element_exception) \<and> leaked w' = leaked w \<and>
          \<not> never_throws T)"
proof -
  note run = run[unfolded Vector_sized_def]
  obtain r0 w0 where c0: "RawMemory_new T n w = (r0, w0)"
    by (metis prod.exhaust)
  from RawMemory_new_cases[OF this fit] show ?thesis
  proof
    assume "r0 = Inl bad_alloc \<and> leaked w0 = leaked w \<and> 0 < n \<and> \<not> never_throws T"
    then show ?thesis using run c0 by auto
  next
    let ?new = "\<lparr>m_buffer = replicate n (None::'a option), m_capacity = n\<rparr>"
    assume ok0: "r0 = Inr ?new \<and> leaked w0 = leaked w"
    obtain r1 b1 w1 where
      c1: "uninitialized_value_construct_n T 0 n (m_buffer ?new) w0 = (r1, b1, w1)"
      by (metis prod_cases3)
    then have "uvc_loop T (length ([]::'a option list))
                 (length ([]::'a option list) + length ([]::'a list)) n
                 ([] @ map Some [] @ replicate n None @ []) w0 = (r1, b1, w1)"
      by (simp add: uninitialized_value_construct_n_def)
    from uvc_loop_result[OF this] show ?thesis
    proof
      assume "r1 = Inr () \<and> b1 = [] @ map Some [] @ replicate n (Some (value_init T)) @ [] \<and>
              w1 = emits (replicate n ValueCtor) w0"
      then show ?thesis
        using run c0 ok0 c1 by (auto simp: vector_of_def)
    next
      assume "r1 = Inl element_exception \<and>
              b1 = [] @ replicate (length ([]::'a list) + n) None @ [] \<and>
              leaked w1 = leaked w0 \<and> \<not> never_throws T"
      then show ?thesis
        using run c0 ok0 c1 by auto
    qed
  qed
qed

lemma Vector_filled_result:
  assumes run: "Vector_filled T n val w = (r, w')" and fit: "n = 0 \<or> fits T n"
  shows "(r = Inr (vector_of (replicate n val) n) \<and> leaked w' = leaked w) \<or>
         ((r = Inl bad_alloc \<or> r = Inl element_exception) \<and> leaked w' = leaked w \<and>
          \<not> never_throws T)"
proof -
  note run = run[unfolded Vector_filled_def]
  obtain r0 w0 where c0: "RawMemory_new T n w = (r0, w0)"
    by (metis prod.exhaust)
  from RawMemory_new_cases[OF this fit] show ?thesis
  proof
    assume "r0 = Inl bad_alloc \<and> leaked w0 = leaked w \<and> 0 < n \<and> \<not> never_throws T"
    then show ?thesis using run c0 by auto
  next
    let ?new = "\<lparr>m_buffer = replicate n (None::'a option), m_capacity = n\<rparr>"
    assume ok0: "r0 = Inr ?new \<and> leaked w0 = leaked w"
    obtain r1 b1 w1 where
      c1: "uninitialized_fill_n T 0 n val (m_buffer ?new) w0 = (r1, b1, w1)"
      by (metis prod_cases3)
    then have "ufill_loop T val (length ([]::'a option list))
                 (length ([]::'a option list) + length ([]::'a list)) n
                 ([] @ map Some [] @ replicate n None @ []) w0 = (r1, b1, w1)"
      by (simp add: uninitialized_fill_n_def)
    from ufill_loop_result[OF this] show ?thesis
    proof
      assume "r1 = Inr () \<and> b1 = [] @ map Some [] @ replicate n (Some val) @ [] \<and>
              w1 = emits (replicate n (CopyCtor val)) w0"
      then show ?thesis
        using run c0 ok0 c1 by (auto simp: vector_of_def)
    next
      assume "r1 = Inl element_exception \<and>
              b1 = [] @ replicate (length ([]::'a list) + n) None @ [] \<and>
              leaked w1 = leaked w0 \<and> \<not> never_throws T"
      then show ?thesis
        using run c0 ok0 c1 by auto
    qed
  qed
qed

lemma uninitialized_copy_fresh:
  assumes "uninitialized_copy T (map Some xs @ sy) 0 (length xs) (replicate (length xs) None) 0 w
             = (r, b, w')"
  shows "(r = Inr () \<and> b = map Some xs \<and> w' = emits (map CopyCtor xs) w) \<or>
         (r = Inl element_exception \<and> b = replicate (length xs) None \<and>
          leaked w' = leaked w \<and> \<not> never_throws T)"
proof -
  have "ucopy_loop T ([] @ map Some xs @ sy) (length ([]::'a option list)) (length xs)
          (length ([]::'a option list)) (length ([]::'a option list) + length ([]::'a list))
          ([] @ map Some [] @ replicate (length xs) None @ []) w = (r, b, w')"
    using assms by (simp add: uninitialized_copy_def)
  from ucopy_loop_result[OF this] show ?thesis
    by auto
qed

lemma Vector_of_list_result:
  assumes run: "Vector_of_list T xs w = (r, w')" and fit: "length xs = 0 \<or> fits T (length xs)"
  shows "(r = Inr (vector_of xs (length xs)) \<and> leaked w' = leaked w) \<or>
         ((r = Inl bad_alloc \<or> r = Inl element_exception) \<and> leaked w' = leaked w \<and>
          \<not> never_throws T)"
proof -
  note run = run[unfolded Vector_of_list_def]
  obtain r0 w0 where c0: "RawMemory_new T (length xs) w = (r0, w0)"
    by (metis prod.exhaust)
  from RawMemory_new_cases[OF this fit] show ?thesis
  proof
    assume "r0 = Inl bad_alloc \<and> leaked w0 = leaked w \<and> 0 < length xs \<and> \<not> never_throws T"
    then show ?thesis using run c0 by auto
  next
    let ?new = "\<lparr>m_buffer = replicate (length xs) (None::'a option), m_capacity = length xs\<rparr>"
    assume ok0: "r0 = Inr ?new \<and> leaked w0 = leaked w"
    obtain r1 b1 w1 where
      c1: "uninitialized_copy T (map Some xs @ []) 0 (length xs) (replicate (length xs) None) 0 w0
           = (r1, b1, w1)"
      by (metis prod_cases3)
    from uninitialized_copy_fresh[OF this] show ?thesis
      using run c0 ok0 c1 by (auto simp: vector_of_def)
  qed
qed

lemma Vector_copy_result:
  assumes c: "length xs \<le> c" and fit: "length xs = 0 \<or> fits T (length xs)"
    and run: "Vector_copy T (vector_of xs c) w = (r, w')"
  shows "(r = Inr (vector_of xs (length xs)) \<and> leaked w' = leaked w) \<or>
         ((r = Inl bad_alloc \<or> r = Inl element_exception) \<and> leaked w' = leaked w \<and>
          \<not> never_throws T)"
proof -
  note run = run[unfolded Vector_copy_def]
  obtain r0 w0 where c0: "RawMemory_new T (length xs) w = (r0, w0)"
    by (metis prod.exhaust)
  from RawMemory_new_cases[OF this fit] show ?thesis
  proof
    assume "r0 = Inl bad_alloc \<and> leaked w0 = leaked w \<and> 0 < length xs \<and> \<not> never_throws T"
    then show ?thesis using run c0 by auto
  next
    let ?new = "\<lparr>m_buffer = replicate (length xs) (None::'a option), m_capacity = length xs\<rparr>"
    assume ok0: "r0 = Inr ?new \<and> leaked w0 = leaked w"
    obtain r1 b1 w1 where
      c1: "uninitialized_copy T (map Some xs @ replicate (c - length xs) None) 0 (length xs)
             (replicate (length xs) None) 0 w0 = (r1, b1, w1)"
      by (metis prod_cases3)
    from uninitialized_copy_fresh[OF this] show ?thesis
    proof
      assume ok: "r1 = Inr () \<and> b1 = map Some xs \<and> w1 = emits (map CopyCtor xs) w0"
      then have "r = Inr \<lparr>m_data = ?new\<lparr>m_buffer := b1\<rparr>, m_size = length xs\<rparr>" "w' = w1"
        using run c c0 ok0 c1 by simp_all
      then show ?thesis
        using ok ok0 by (simp add: vector_of_def)
    next
      assume f: "r1 = Inl element_exception \<and> b1 = replicate (length xs) None \<and>
                 leaked w1 = leaked w0 \<and> \<not> never_throws T"
      then have "r = Inl element_exception" "w' = w1"
        using run c c0 ok0 c1 by simp_all
      then show ?thesis
        using f ok0 by simp
    qed
  qed
qed


lemma copy_n_result:
  assumes "copy_n T (sx @ map Some vs @ sy) (length sx) (length vs) (length dx)
             (dx @ map Some old @ dy) w = (st, b', w')"
    and "length old = length vs"
  shows "(st = Inr () \<and> b' = dx @ map Some vs @ dy \<and> leaked w' = leaked w) \<or>
         (st = Inl element_exception \<and>
          (\<exists>zs. length zs = length vs \<and> b' = dx @ map Some zs @ dy) \<and>
          leaked w' = leaked w \<and> \<not> never_throws T)"
  using assms
proof (induction vs arbitrary: sx dx old w)
  case Nil
  then show ?case by simp
next
  case (Cons v vs)
  then obtain u us where old: "old = u # us" and len: "length us = length vs"
    by (cases old) auto
  show ?case
  proof (cases "raises T (trace w) (CopyAssign v)")
    case True
    then have "st = Inl element_exception" "b' = dx @ map Some (u # us) @ dy"
      "w' = emit (CopyAssign v) w"
      using Cons.prems(1) old by simp_all
    moreover have "\<exists>zs. length zs = length (v # vs) \<and>
                     dx @ map Some (u # us) @ dy = dx @ map Some zs @ dy"
      by (rule exI[of _ "u # us"]) (simp add: len)
    ultimately show ?thesis
      using raises_not_never[OF True] by simp
  next
    case False
    have "copy_n T ((sx @ [Some v]) @ map Some vs @ sy) (length (sx @ [Some v])) (length vs)
            (length (dx @ [Some v])) ((dx @ [Some v]) @ map Some us @ dy) (emit (CopyAssign v) w)
          = (st, b', w')"
      using Cons.prems(1) False old by simp
    from Cons.IH[OF this len] show ?thesis
    proof
      assume "st = Inr () \<and> b' = (dx @ [Some v]) @ map Some vs @ dy \<and>
              leaked w' = leaked (emit (CopyAssign v) w)"
      then show ?thesis by simp
    next
      assume f: "st = Inl element_exception \<and>
         (\<exists>zs. length zs = length vs \<and> b' = (dx @ [Some v]) @ map Some zs @ dy) \<and>
         leaked w' = leaked (emit (CopyAssign v) w) \<and> \<not> never_throws T"
      then obtain zs where "length zs = length vs" "b' = (dx @ [Some v]) @ map Some zs @ dy"
        by blast
      then have "length (v # zs) = length (v # vs) \<and> b' = dx @ map Some (v # zs) @ dy"
        by simp
      then have "\<exists>zs. length zs = length (v # vs) \<and> b' = dx @ map Some zs @ dy"
        by blast
      with f show ?thesis by simp
    qed
  qed
qed

lemma Vector_dtor_result:
  assumes "length xs \<le> c"
  shows "Vector_dtor (vector_of xs c) w = (Inr (), emits (map Dtor xs) w)"
proof -
  let ?R = "replicate (c - length xs) (None::'a option)"
  have "destroy_n (length ([]::'a option list)) (length xs) ([] @ map Some xs @ ?R) w =
        (Inr (), [] @ replicate (length xs) None @ ?R, emits (map Dtor xs) w)"
    by (rule destroy_n_live)
  then have d: "destroy_n 0 (length xs) (map Some xs @ ?R) w =
        (Inr (), replicate (length xs) None @ ?R, emits (map Dtor xs) w)"
    by simp
  show ?thesis
  proof (cases "map Some xs @ ?R = []")
    case True
    then show ?thesis
      by (simp add: Vector_dtor_def vector_of_def block_of_def RawMemory_dtor_def)
  next
    case False
    then show ?thesis
      using d by (simp add: Vector_dtor_def vector_of_def block_of_def RawMemory_dtor_def)
  qed
qed

lemma Swap_eq: "Swap (v::'a Vector) rhs = (rhs, v)"
  by (simp add: Swap_def swap_RawMemory_def RawMemory_move_def RawMemory_move_assign_def
      RawMemory_Swap_def)

lemma copy_assign_result:
  assumes ne: "this \<noteq> rhs"
    and l: "st this = vector_of xs c" "length xs \<le> c"
    and r: "st rhs = vector_of ys d" "length ys \<le> d"
    and fit: "length ys \<le> c \<or> fits T (length ys)"
    and run: "copy_assign T this rhs st w = (s, st', w')"
  shows "(s = Inr () \<and>
          st' = st(this := vector_of ys (if length ys \<le> c then c else length ys)) \<and>
          leaked w' = leaked w) \<or>
         ((s = Inl bad_alloc \<or> s = Inl element_exception) \<and> \<not> never_throws T \<and>
          leaked w' = leaked w \<and>
          (\<exists>zs. length zs = length xs \<and> st' = st(this := vector_of zs c)))"
proof (cases "length ys \<le> c")
  case False
  have same: "st(this := vector_of xs c) = st"
    using l(1) by auto
  have fit': "length ys = 0 \<or> fits T (length ys)"
    using fit False by simp
  obtain r0 w0 where c0: "Vector_copy T (vector_of ys d) w = (r0, w0)"
    by (metis prod.exhaust)
  from Vector_copy_result[OF r(2) fit' this] show ?thesis
  proof
    assume ok: "r0 = Inr (vector_of ys (length ys)) \<and> leaked w0 = leaked w"
    then show ?thesis
      using run ne l r False c0 Vector_dtor_result[OF l(2), of w0]
      by (auto simp: copy_assign_def Swap_eq)
  next
    assume f: "(r0 = Inl bad_alloc \<or> r0 = Inl element_exception) \<and> leaked w0 = leaked w \<and>
               \<not> never_throws T"
    then have "(s = Inl bad_alloc \<or> s = Inl element_exception) \<and> st' = st \<and> w' = w0"
      using run ne l r False c0 by (auto simp: copy_assign_def)
    moreover have "\<exists>zs. length zs = length xs \<and> st = st(this := vector_of zs c)"
      using same by metis
    ultimately show ?thesis
      using f by auto
  qed
next
  case True
  let ?m = "min (length xs) (length ys)"
  let ?Rc = "replicate (c - length xs) (None::'a option)"
  let ?Rd = "replicate (d - length ys) (None::'a option)"
  have guards: "this \<noteq> rhs" "length ys \<le> Capacity (st this)"
    using ne True l by simp_all
  have sizes: "m_size (st this) = length xs" "m_size (st rhs) = length ys"
    using l r by simp_all
  have blocks: "block_of (st this) = [] @ map Some (take ?m xs) @ map Some (drop ?m xs) @ ?Rc"
    "block_of (st rhs) = [] @ map Some (take ?m ys) @ map Some (drop ?m ys) @ ?Rd"
    using l r by (simp_all flip: map_append)
  note run = run[unfolded copy_assign_def sizes]
  obtain r1 b1 w1 where
    c1: "copy_n T (block_of (st rhs)) 0 ?m 0 (block_of (st this)) w = (r1, b1, w1)"
    by (metis prod_cases3)
  then have "copy_n T ([] @ map Some (take ?m ys) @ map Some (drop ?m ys) @ ?Rd)
               (length ([]::'a option list)) (length (take ?m ys)) (length ([]::'a option list))
               ([] @ map Some (take ?m xs) @ map Some (drop ?m xs) @ ?Rc) w = (r1, b1, w1)"
    unfolding blocks by simp
  moreover have "length (take ?m xs) = length (take ?m ys)"
    by simp
  ultimately have "(r1 = Inr () \<and> b1 = [] @ map Some (take ?m ys) @ map Some (drop ?m xs) @ ?Rc \<and>
            leaked w1 = leaked w) \<or>
         (r1 = Inl element_exception \<and>
          (\<exists>zs. length zs = length (take ?m ys) \<and>
                b1 = [] @ map Some zs @ map Some (drop ?m xs) @ ?Rc) \<and>
          leaked w1 = leaked w \<and> \<not> never_throws T)"
    by (rule copy_n_result)
  then show ?thesis
  proof
    assume f: "r1 = Inl element_exception \<and>
          (\<exists>zs. length zs = length (take ?m ys) \<and>
                b1 = [] @ map Some zs @ map Some (drop ?m xs) @ ?Rc) \<and>
          leaked w1 = leaked w \<and> \<not> never_throws T"
    then obtain zs where zs: "length zs = ?m" "b1 = map Some (zs @ drop ?m xs) @ ?Rc"
      by auto
    have res: "s = Inl element_exception" "st' = st(this := with_block (st this) b1)" "w' = w1"
      using run guards c1 f by simp_all
    have "length (zs @ drop ?m xs) = length xs"
      using zs by simp
    then have "length (zs @ drop ?m xs) = length xs \<and>
               st' = st(this := vector_of (zs @ drop ?m xs) c)"
      using res(2) zs(2) l(1) with_block_vector_of[of "zs @ drop ?m xs" xs c] by simp
    then show ?thesis
      using res f by blast
  next
    assume ok1: "r1 = Inr () \<and> b1 = [] @ map Some (take ?m ys) @ map Some (drop ?m xs) @ ?Rc \<and>
                 leaked w1 = leaked w"
    show ?thesis
    proof (cases "length ys < length xs")
      case shrink: True
      then have m: "?m = length ys" by simp
      have b1: "b1 = map Some ys @ map Some (drop (length ys) xs) @ ?Rc"
        using ok1 m by simp
      have "destroy (length (map Some ys)) (length (map Some ys) + length (drop (length ys) xs))
              (map Some ys @ map Some (drop (length ys) xs) @ ?Rc) w1 =
            (Inr (), map Some ys @ replicate (length (drop (length ys) xs)) None @ ?Rc,
             emits (map Dtor (drop (length ys) xs)) w1)"
        by (rule destroy_live)
      then have d: "destroy ?m (length xs) b1 w1 =
            (Inr (), map Some ys @ replicate (length xs - length ys) None @ ?Rc,
             emits (map Dtor (drop (length ys) xs)) w1)"
        using b1 m shrink by simp
      have res: "s = Inr ()"
        "st' = st(this := (with_block (st this)
                 (map Some ys @ replicate (length xs - length ys) None @ ?Rc))
                 \<lparr>m_size := length ys\<rparr>)"
        "w' = emits (map Dtor (drop (length ys) xs)) w1"
        using run guards c1 ok1 d shrink by simp_all
      have "replicate (length xs - length ys) None @ ?Rc = replicate (c - length ys) (None::'a option)"
        using shrink l(2) by (simp flip: replicate_add)
      then have "st' = st(this := vector_of ys c)"
        using res(2) l(1) by (simp add: with_block_def vector_of_def)
      then show ?thesis
        using res ok1 True by simp
    next
      case grow: False
      then have m: "?m = length xs" by simp
      let ?R2 = "replicate (c - length ys) (None::'a option)"
      have rc: "?Rc = replicate (length (drop (length xs) ys)) None @ ?R2"
        using grow True by (simp flip: replicate_add)
      have b1: "b1 = map Some (take (length xs) ys) @ map Some [] @
                     replicate (length (drop (length xs) ys)) None @ ?R2"
        using ok1 m rc by simp
      have e: "end_ok (st rhs)"
        using r by simp
      obtain r2 b2 w2 where
        c2: "uninitialized_copy T (block_of (st rhs)) ?m (length ys) b1 ?m w1 = (r2, b2, w2)"
        by (metis prod_cases3)
      then have "ucopy_loop T (map Some (take (length xs) ys) @ map Some (drop (length xs) ys) @ ?Rd)
                   (length (map Some (take (length xs) ys))) (length (drop (length xs) ys))
                   (length (map Some (take (length xs) ys)))
                   (length (map Some (take (length xs) ys)) + length ([]::'a list))
                   (map Some (take (length xs) ys) @ map Some [] @
                     replicate (length (drop (length xs) ys)) None @ ?R2) w1 = (r2, b2, w2)"
        using blocks(2) b1 m grow by (simp add: uninitialized_copy_def)
      from ucopy_loop_result[OF this] show ?thesis
      proof
        assume ok2: "r2 = Inr () \<and>
            b2 = map Some (take (length xs) ys) @ map Some [] @
                 map Some (drop (length xs) ys) @ ?R2 \<and>
            w2 = emits (map CopyCtor (drop (length xs) ys)) w1"
        have res: "s = Inr ()"
          "st' = st(this := (with_block (st this) b2)\<lparr>m_size := length ys\<rparr>)" "w' = w2"
          using run guards c1 ok1 c2 ok2 grow e by simp_all
        have "b2 = map Some ys @ ?R2"
          using ok2 by (simp flip: map_append)
        then have "st' = st(this := vector_of ys c)"
          using res(2) l(1) by (simp add: with_block_def vector_of_def)
        then show ?thesis
          using res ok1 ok2 True by simp
      next
        assume f: "r2 = Inl element_exception \<and>
            b2 = map Some (take (length xs) ys) @
                 replicate (length ([]::'a list) + length (drop (length xs) ys)) None @ ?R2 \<and>
            leaked w2 = leaked w1 \<and> \<not> never_throws T"
        have res: "s = Inl element_exception" "st' = st(this := with_block (st this) b2)"
          "w' = w2"
          using run guards c1 ok1 c2 f grow e by simp_all
        have "b2 = map Some (take (length xs) ys) @ ?Rc"
          using f rc by simp
        moreover have "length (take (length xs) ys) = length xs"
          using grow by simp
        ultimately have "length (take (length xs) ys) = length xs \<and>
                         st' = st(this := vector_of (take (length xs) ys) c)"
          using res(2) l(1) with_block_vector_of[of "take (length xs) ys" xs c] by simp
        then have "\<exists>zs. length zs = length xs \<and> st' = st(this := vector_of zs c)"
          by blast
        moreover have "leaked w' = leaked w"
          using res(3) f ok1 by simp
        ultimately show ?thesis
          using res(1) f by blast
      qed
    qed
  qed
qed


lemma construct_dangling:
  assumes "arg_value a xs = None"
  shows "construct T a (map Some xs @ replicate k None) w =
           (Inl undefined_behaviour, map Some xs @ replicate k None, w)"
proof (cases a)
  case (CtorArgs y)
  then show ?thesis using assms by simp
next
  case (ConstRef r)
  then show ?thesis using assms by (simp add: deref_content)
next
  case (RvalueRef r)
  then show ?thesis using assms by (simp add: deref_content)
qed

lemma with_block_same [simp]:
  "with_block (vector_of xs c) (map Some xs @ replicate (c - length xs) None) = vector_of xs c"
  by (simp add: with_block_def vector_of_def)

lemma with_block_same_full [simp]:
  "with_block (vector_of xs (length xs)) (map Some xs) = vector_of xs (length xs)"
  by (simp add: with_block_def vector_of_def)

lemma with_block_same_empty [simp]: "with_block (vector_of [] 0) [] = vector_of [] 0"
  by (simp add: with_block_def vector_of_def)

lemma Emplace_dangling:
  assumes "arg_value a xs = None" and "length xs \<le> c"
    and "Emplace T it a (vector_of xs c) w = (r, v', w')"
  shows "v' = vector_of xs c \<and> (\<exists>e. r = Inl e)"
proof -
  have c1: "\<And>k w. construct T a (map Some xs @ replicate k None) w =
           (Inl undefined_behaviour, map Some xs @ replicate k None, w)"
    using construct_dangling[OF assms(1)] by simp
  have c2: "\<And>w. construct T a (map Some xs) w = (Inl undefined_behaviour, map Some xs, w)"
    using c1[of 0] by simp
  obtain r0 w0 where
    "Allocate T (if length xs = 0 then 1 else length xs * 2) w = (r0, w0)"
    by (metis prod.exhaust)
  moreover have "with_block (vector_of [] c) (replicate c None) = vector_of ([]::'a list) c"
    by (simp add: with_block_def vector_of_def)
  ultimately show ?thesis
    using assms(2,3) c1 c2
    by (cases r0) (auto simp: Emplace_def RawMemory_new_def split: if_splits)
qed

lemma Emplace_keeps_inv:
  assumes inv: "Vector_inv v" and run: "Emplace T it a v w = (r, v', w')"
    and fit: "fits T (grown (Capacity v) (Size v))"
    and ok: "(\<exists>x. r = Inr x) \<or> \<not> (it < Size v \<and> Size v < Capacity v)"
  shows "Vector_inv v'"
proof -
  from inv obtain xs c where v: "v = vector_of xs c" and c: "length xs \<le> c"
    by (rule Vector_inv_cases)
  show ?thesis
  proof (cases "it \<le> length xs")
    case False
    then show ?thesis
      using run c unfolding v by (auto simp: Emplace_def)
  next
    case it: True
    show ?thesis
    proof (cases "arg_value a xs")
      case None
      then show ?thesis
        using Emplace_dangling[OF None c run[unfolded v]] c by simp
    next
      case (Some x)
      from Emplace_result[OF c it Some _ run[unfolded v]] show ?thesis
        using ok c it grown_ge[OF c] fit unfolding v by auto
    qed
  qed
qed

lemma Erase_keeps_inv:
  assumes inv: "Vector_inv v" and run: "Erase T it v w = (r, v', w')"
  shows "Vector_inv v'"
proof -
  from inv obtain xs c where v: "v = vector_of xs c" and c: "length xs \<le> c"
    by (rule Vector_inv_cases)
  show ?thesis
  proof (cases "it < length xs")
    case False
    then show ?thesis
      using run c unfolding v by (auto simp: Erase_def)
  next
    case True
    from Erase_result[OF c True run[unfolded v]] show ?thesis
      using c by auto
  qed
qed

lemma Resize_keeps_inv:
  assumes inv: "Vector_inv v" and run: "Resize T k v w = (r, v', w')" and fit: "fits T k"
  shows "Vector_inv v'"
proof -
  from inv obtain xs c where v: "v = vector_of xs c" and c: "length xs \<le> c"
    by (rule Vector_inv_cases)
  from Resize_result[OF c _ run[unfolded v]] show ?thesis
    using c fit by auto
qed

lemma Reserve_keeps_inv:
  assumes inv: "Vector_inv v" and run: "Reserve T n v w = (r, v', w')" and fit: "fits T n"
  shows "Vector_inv v'"
proof -
  from inv obtain xs c where v: "v = vector_of xs c" and c: "length xs \<le> c"
    by (rule Vector_inv_cases)
  from Reserve_result[OF c _ run[unfolded v]] show ?thesis
    using c fit by auto
qed

lemma PopBack_keeps_inv:
  assumes inv: "Vector_inv v" and run: "PopBack v w = (r, v', w')"
  shows "Vector_inv v'"
proof -
  from inv obtain xs c where v: "v = vector_of xs c" and c: "length xs \<le> c"
    by (rule Vector_inv_cases)
  show ?thesis
    using run c unfolding v PopBack_result[OF c] by (auto split: if_splits)
qed

lemma PushBack_keeps_inv:
  assumes inv: "Vector_inv v" and run: "PushBack T x v w = (r, v', w')"
    and fit: "fits T (grown (Capacity v) (Size v))"
  shows "Vector_inv v'"
proof -
  have e: "end_ok v" "\<not> m_size v < Size v"
    using Vector_inv_vector_of[OF inv] by (simp_all add: end_ok_def plus_ok_def Capacity_def Size_def)
  obtain r1 v1 w1 where em: "Emplace T (m_size v) (forward x) v w = (r1, v1, w1)"
    by (metis prod_cases3)
  then have "v' = v1"
    using run e by (auto simp: PushBack_def EmplaceBack_def split: sum.splits)
  then show ?thesis
    using Emplace_keeps_inv[OF inv em fit] e by simp
qed

lemma constructors_establish_inv:
  "Vector_inv Vector_default"
  "fits T n \<Longrightarrow> Vector_sized T n w = (Inr v, w') \<Longrightarrow> Vector_inv v"
  "fits T n \<Longrightarrow> Vector_filled T n x w = (Inr v, w') \<Longrightarrow> Vector_inv v"
  "fits T (length xs) \<Longrightarrow> Vector_of_list T xs w = (Inr v, w') \<Longrightarrow> Vector_inv v"
  "Vector_inv u \<Longrightarrow> fits T (Size u) \<Longrightarrow> Vector_copy T u w = (Inr v, w') \<Longrightarrow> Vector_inv v"
  "Vector_inv u \<Longrightarrow> Vector_inv (fst (Vector_move u w))"
  "Vector_inv (fst (snd (Vector_move u w)))"
proof -
  show "Vector_inv Vector_default"
    by (simp add: Vector_inv_def Vector_default_def RawMemory_default_def block_of_def
        Capacity_def)
  show "fits T n \<Longrightarrow> Vector_sized T n w = (Inr v, w') \<Longrightarrow> Vector_inv v"
    using Vector_sized_result[of T n w "Inr v" w'] by auto
  show "fits T n \<Longrightarrow> Vector_filled T n x w = (Inr v, w') \<Longrightarrow> Vector_inv v"
    using Vector_filled_result[of T n x w "Inr v" w'] by auto
  show "fits T (length xs) \<Longrightarrow> Vector_of_list T xs w = (Inr v, w') \<Longrightarrow> Vector_inv v"
    using Vector_of_list_result[of T xs w "Inr v" w'] by auto
  show "Vector_inv u \<Longrightarrow> fits T (Size u) \<Longrightarrow> Vector_copy T u w = (Inr v, w') \<Longrightarrow> Vector_inv v"
  proof -
    assume inv: "Vector_inv u" and fit: "fits T (Size u)"
      and run: "Vector_copy T u w = (Inr v, w')"
    from inv obtain xs c where u: "u = vector_of xs c" and c: "length xs \<le> c"
      by (rule Vector_inv_cases)
    from Vector_copy_result[OF c _ run[unfolded u]] show ?thesis
      using fit u by auto
  qed
  show "Vector_inv u \<Longrightarrow> Vector_inv (fst (Vector_move u w))"
    by (simp add: Vector_move_def exchange_RawMemory_def RawMemory_move_def Vector_inv_def
        block_of_def Capacity_def)
  show "Vector_inv (fst (snd (Vector_move u w)))"
    by (simp add: Vector_move_def exchange_RawMemory_def RawMemory_move_def
        RawMemory_move_assign_def RawMemory_Swap_def RawMemory_default_def Vector_inv_def
        block_of_def Capacity_def)
qed

lemma copy_assign_keeps_inv:
  assumes "Vector_inv (st this)" and "Vector_inv (st rhs)"
    and run: "copy_assign T this rhs st w = (r, st', w')"
    and fit: "fits T (Size (st rhs))"
    and ret: "r = Inr () \<or> r = Inl bad_alloc \<or> r = Inl element_exception"
  shows "Vector_inv (st' this) \<and> (\<forall>a. a \<noteq> this \<longrightarrow> st' a = st a)"
proof (cases "this = rhs")
  case True
  then show ?thesis
    using run assms(1) by (simp add: copy_assign_def)
next
  case False
  from assms(1) obtain xs c where l: "st this = vector_of xs c" "length xs \<le> c"
    by (rule Vector_inv_cases)
  from assms(2) obtain ys d where r: "st rhs = vector_of ys d" "length ys \<le> d"
    by (rule Vector_inv_cases)
  from copy_assign_result[OF False l r _ run] show ?thesis
    using l r fit by auto
qed

lemma comes_back_cases:
  "comes_back r \<Longrightarrow> (\<exists>x. r = Inr x) \<or> r = Inl bad_alloc \<or> r = Inl element_exception"
  by (cases r) (auto simp: comes_back_def is_exception_def)

text \<open>
  Every reachable vector is well formed: the invariant survives every constructor, every
  normal return and every exit by exception other than the one \<open>reachable\<close> leaves out.
\<close>

lemma reachable_invariant: "v \<in> reachable T \<Longrightarrow> Vector_inv v"
proof (induction rule: reachable.induct)
  case default
  show ?case by (rule constructors_establish_inv)
next
  case (sized n w v w')
  then show ?case by (rule constructors_establish_inv)
next
  case (filled n x w v w')
  then show ?case by (rule constructors_establish_inv)
next
  case (of_list xs w v w')
  then show ?case by (rule constructors_establish_inv)
next
  case (copied u w v w')
  then show ?case using constructors_establish_inv(5) by blast
next
  case (moved_to u w)
  then show ?case by (simp add: constructors_establish_inv)
next
  case (moved_out u w)
  then show ?case by (simp add: constructors_establish_inv)
next
  case (copy_assigned st this rhs w r st' w')
  then show ?case
    using copy_assign_keeps_inv[of st this rhs T w r st' w'] comes_back_cases[of r]
    by auto
next
  case (move_assigned st this rhs a w)
  then show ?case
    by (auto simp: move_assign_def Swap_eq)
next
  case (swapped_left u v)
  then show ?case by (simp add: Swap_eq)
next
  case (swapped_right u v)
  then show ?case by (simp add: Swap_eq)
next
  case (reserved v n w r v' w')
  then show ?case using Reserve_keeps_inv by blast
next
  case (resized v n w r v' w')
  then show ?case using Resize_keeps_inv by blast
next
  case (emplaced v it a w i v' w')
  then show ?case using Emplace_keeps_inv by blast
next
  case (emplace_raised v it a w e v' w')
  then show ?case using Emplace_keeps_inv by blast
next
  case (pushed v x w r v' w')
  then show ?case using PushBack_keeps_inv by blast
next
  case (inserted v it x w i v' w')
  then show ?case using Emplace_keeps_inv unfolding Insert_def by blast
next
  case (insert_raised v it x w e v' w')
  then show ?case using Emplace_keeps_inv unfolding Insert_def by blast
next
  case (popped v w r v' w')
  then show ?case using PopBack_keeps_inv by blast
next
  case (erased v it w r v' w')
  then show ?case using Erase_keeps_inv by blast
qed

text \<open>
  When the bulk transfer copies (a copyable \<open>T\<close> whose move constructor may throw), a
  failed copy construction of a vector leaves nothing alive, a failed \<open>Reserve\<close> leaves
  the vector as it was and nothing alive, and a failed \<open>Resize\<close> or growing \<open>Emplace\<close>
  leaves the vector as it was, as long as the buffers asked for have a byte count within
  \<open>size_t\<close>.
\<close>

lemma copy_based_transfer_keeps_vector:
  assumes inv: "Vector_inv v"
    and copying: "\<not> is_nothrow_move_constructible T" "is_copy_constructible T"
    and fit: "fits T n" "fits T (grown (Capacity v) (Size v))"
  shows "(\<forall>e w'. Vector_copy T v w = (Inl e, w') \<longrightarrow> leaked w' = leaked w) \<and>
         (\<forall>e v' w'. Reserve T n v w = (Inl e, v', w') \<longrightarrow> v' = v \<and> leaked w' = leaked w) \<and>
         (\<forall>e v' w'. Resize T n v w = (Inl e, v', w') \<longrightarrow> v' = v) \<and>
         (\<forall>e v' w'. Emplace T it a v w = (Inl e, v', w') \<and> Capacity v = Size v \<and>
                     arg_effect T a (content v) = content v \<longrightarrow> v' = v)"
proof -
  from inv obtain xs c where v: "v = vector_of xs c" and c: "length xs \<le> c"
    by (rule Vector_inv_cases)
  have nm: "\<not> moves T"
    using copying by (simp add: moves_def)
  have fit_size: "fits T (length xs)" and fit_grown: "fits T (grown c (length xs))"
    using fits_mono[OF fit(2), of "length xs"] fit(2) grown_ge[OF c] c unfolding v by simp_all
  have a: "\<forall>e w'. Vector_copy T v w = (Inl e, w') \<longrightarrow> leaked w' = leaked w"
    using Vector_copy_result[OF c disjI2[OF fit_size], of w] unfolding v by blast
  have b: "\<forall>e v' w'. Reserve T n v w = (Inl e, v', w') \<longrightarrow> v' = v \<and> leaked w' = leaked w"
    using Reserve_result[OF c disjI2[OF fit(1)], of w] nm unfolding v by blast
  have r: "\<forall>e v' w'. Resize T n v w = (Inl e, v', w') \<longrightarrow> v' = v"
    using Resize_result[OF c disjI2[OF fit(1)], of w] nm unfolding v by blast
  have e: "\<forall>e v' w'. Emplace T it a v w = (Inl e, v', w') \<and> Capacity v = Size v \<and>
                     arg_effect T a (content v) = content v \<longrightarrow> v' = v"
  proof (intro allI impI)
    fix e v' w'
    assume h: "Emplace T it a v w = (Inl e, v', w') \<and> Capacity v = Size v \<and>
               arg_effect T a (content v) = content v"
    then have full: "c = length xs" and eff: "arg_effect T a xs = xs"
      and run: "Emplace T it a (vector_of xs c) w = (Inl e, v', w')"
      unfolding v by auto
    show "v' = v"
    proof (cases "it \<le> length xs")
      case False
      then show ?thesis
        using run c unfolding v by (auto simp: Emplace_def)
    next
      case True
      show ?thesis
      proof (cases "arg_value a xs")
        case None
        then show ?thesis
          using Emplace_dangling[OF None c run] v by simp
      next
        case (Some x)
        from Emplace_result[OF c True Some disjI2[OF fit_grown] run] show ?thesis
          using nm eff full v by auto
      qed
    qed
  qed
  from a b r e show ?thesis by blast
qed

section \<open>Assignment to oneself\<close>

text \<open>
  C9. Assigning a vector to itself, by copy assignment or by move assignment, changes
  nothing: the store of vectors (hence the length, the capacity and every element of the
  vector assigned) and the world are what they were.
\<close>

theorem self_assignment_is_noop:
  "copy_assign T a a st w = (Inr (), st, w) \<and> move_assign a a st w = (st, w)"
  by (simp add: copy_assign_def move_assign_def)

section \<open>Moving a vector\<close>

text \<open>
  C2, as the code has it. Move construction of \<open>B\<close> from \<open>A\<close> gives \<open>B\<close> the members of
  \<open>A\<close> and leaves \<open>A\<close> with length 0 and capacity 0. Move assignment of the vector at
  address \<open>a\<close> to the vector at address \<open>b\<close> swaps the two: \<open>b\<close> holds what \<open>a\<close> held and
  \<open>a\<close> holds what \<open>b\<close> held. Neither performs any operation of the element type or of
  the memory provider: the world is unchanged.
\<close>

theorem move_transfers_members:
  "fst (Vector_move A w) = A \<and>
   Size (fst (snd (Vector_move A w))) = 0 \<and> Capacity (fst (snd (Vector_move A w))) = 0 \<and>
   snd (snd (Vector_move A w)) = w \<and>
   fst (move_assign b a st w) b = st a \<and> fst (move_assign b a st w) a = st b \<and>
   snd (move_assign b a st w) = w"
  by (simp add: Vector_move_def move_assign_def Swap_def Size_def Capacity_def
      exchange_RawMemory_def swap_RawMemory_def RawMemory_move_def RawMemory_move_assign_def
      RawMemory_Swap_def RawMemory_default_def)

text \<open>
  C2 as stated fails for move assignment: moving \<open>[1, 2]\<close> (address 0) into \<open>[7]\<close>
  (address 1) leaves the source with length 1 and capacity 1, holding \<open>[7]\<close>.
\<close>

theorem move_assignment_source_not_empty:
  "Size (fst (move_assign 1 0 store0 world0) 0) = 1 \<and>
   Capacity (fst (move_assign 1 0 store0 world0) 0) = 1 \<and>
   content (fst (move_assign 1 0 store0 world0) 0) = [7] \<and>
   content (fst (move_assign 1 0 store0 world0) 1) = [1, 2]"
  by (simp add: move_assign_def Swap_def Size_def Capacity_def content_def block_of_def
      swap_RawMemory_def RawMemory_move_def RawMemory_move_assign_def RawMemory_Swap_def
      store0_def vec12_def vec7_def)

section \<open>Allocation failure\<close>

text \<open>
  C4. When \<open>operator new\<close> throws for the buffer a growing operation asks for
  (\<open>Reserve\<close> and \<open>Resize\<close> beyond the capacity, \<open>Emplace\<close> and \<open>PushBack\<close> on a full
  vector), the operation fails with \<open>bad_alloc\<close> and the vector is the one it was:
  same length, capacity and content. Nothing but the failed allocation has happened.
\<close>

theorem allocation_failure_leaves_vector_unchanged:
  assumes "Vector_inv v" and "throws T (trace w) (New n)"
  shows "(Capacity v < n \<longrightarrow> Reserve T n v w = (Inl bad_alloc, v, emit (New n) w)) \<and>
         (Capacity v < n \<longrightarrow> Resize T n v w = (Inl bad_alloc, v, emit (New n) w)) \<and>
         (Capacity v = Size v \<and> it \<le> Size v \<and> n = (if Size v = 0 then 1 else Size v * 2)
            \<longrightarrow> Emplace T it a v w = (Inl bad_alloc, v, emit (New n) w)) \<and>
         (Capacity v = Size v \<and> n = (if Size v = 0 then 1 else Size v * 2)
            \<longrightarrow> PushBack T x v w = (Inl bad_alloc, v, emit (New n) w))"
  using assms
  by (auto simp: Reserve_def Resize_def Emplace_def PushBack_def EmplaceBack_def
      RawMemory_new_def Allocate_def Vector_inv_def end_ok_def plus_ok_def Capacity_def
      Size_def raises.simps)

section \<open>Sequences of PushBack\<close>


section \<open>Resize\<close>

text \<open>
  \<open>Resize k\<close> on a well-formed vector, when \<open>k\<close> is within the capacity or a number of
  objects whose byte count \<open>size_t\<close> holds: it cannot fail when \<open>k\<close> is at most the
  length, and does not fail when nothing throws. Whenever it returns normally the length
  is \<open>k\<close>; if \<open>k\<close> was below the length the elements at \<open>[0, k)\<close> are the old ones; if
  \<open>k\<close> was above the length the old elements are unchanged and are followed by
  \<open>k - length\<close> elements equal to the default value of \<open>T\<close>.
\<close>

lemma resize_within_size_t:
  assumes "Vector_inv v" and "k \<le> Capacity v \<or> fits T k"
  shows "(k \<le> Size v \<or> never_throws T \<longrightarrow> fst (Resize T k v w) = Inr ()) \<and>
         (\<forall>v' w'. Resize T k v w = (Inr (), v', w') \<longrightarrow>
            Size v' = k \<and>
            (k < Size v \<longrightarrow> content v' = take k (content v)) \<and>
            (Size v < k \<longrightarrow>
               content v' = content v @ replicate (k - Size v) (value_init T)))"
proof -
  from assms(1) obtain xs c where v: "v = vector_of xs c" and c: "length xs \<le> c"
    by (rule Vector_inv_cases)
  have fit: "k \<le> c \<or> fits T k"
    using assms(2) v by simp
  obtain st v' w' where run: "Resize T k (vector_of xs c) w = (st, v', w')"
    by (metis prod_cases3)
  from Resize_result[OF c fit run] show ?thesis
    unfolding v using run by auto
qed

section \<open>Insert and Erase\<close>

lemma arg_effect_forward:
  "arg_effect T (forward x) xs =
     (case x of Rvalue (Element k) \<Rightarrow> xs[k := moved_from T (xs ! k)] | _ \<Rightarrow> xs)"
  by (cases x rule: forward.cases) (auto split: ref.splits val.splits)

text \<open>
  C7, as the code has it. Take a well-formed vector whose capacity after an insertion (the
  capacity it has, or twice its length when it is full) is a number of objects whose byte
  count \<open>size_t\<close> holds, and a position \<open>p\<close> in \<open>[0, length]\<close>. Inserting at \<open>p\<close> and then
  erasing at \<open>p\<close> both succeed when nothing throws and the argument refers to an object.
  Whenever both return normally the content is the original one, for an object outside
  the vector by either overload of \<open>Insert\<close> and for a \<open>const T&\<close> to an element of the
  vector itself; for an rvalue reference to the element at index \<open>k\<close> of the vector,
  \<^verbatim>\<open>v.Insert(p, std::move(v[k]))\<close>, it is the original one with that element in its
  moved-from state. Symmetrically, for every \<open>p\<close> in \<open>[0, length)\<close>, erasing at \<open>p\<close> and
  inserting the erased value at \<open>p\<close>, by either overload, restores the original content.
\<close>

theorem insert_erase_round_trip:
  assumes "Vector_inv v" and "fits T (grown (Capacity v) (Size v))"
  shows "(p \<le> Size v \<longrightarrow>
            (never_throws T \<and> refers x (content v) \<longrightarrow>
               (\<exists>v1 w1 v2 w2. Insert T p x v w = (Inr p, v1, w1) \<and>
                               Erase T p v1 w1 = (Inr p, v2, w2))) \<and>
            (\<forall>v1 w1 v2 w2. Insert T p x v w = (Inr p, v1, w1) \<and>
                            Erase T p v1 w1 = (Inr p, v2, w2) \<longrightarrow>
               ((\<forall>k. x \<noteq> Rvalue (Element k)) \<longrightarrow> content v2 = content v) \<and>
               (\<forall>k. x = Rvalue (Element k) \<longrightarrow>
                  content v2 = (content v)[k := moved_from T (content v ! k)]))) \<and>
         (p < Size v \<longrightarrow>
            (\<forall>f \<in> {Lvalue, Rvalue}.
               (never_throws T \<longrightarrow>
                  (\<exists>v1 w1 v2 w2. Erase T p v w = (Inr p, v1, w1) \<and>
                     Insert T p (f (Outside (content v ! p))) v1 w1 = (Inr p, v2, w2))) \<and>
               (\<forall>v1 w1 v2 w2. Erase T p v w = (Inr p, v1, w1) \<and>
                     Insert T p (f (Outside (content v ! p))) v1 w1 = (Inr p, v2, w2) \<longrightarrow>
                  content v2 = content v)))"
proof -
  from assms(1) obtain xs c where v: "v = vector_of xs c" and c: "length xs \<le> c"
    by (rule Vector_inv_cases)
  have fit: "length xs < c \<or> fits T (grown c (length xs))"
    using assms(2) v by simp
  have first: "(never_throws T \<and> refers x (content v) \<longrightarrow>
               (\<exists>v1 w1 v2 w2. Insert T p x v w = (Inr p, v1, w1) \<and>
                               Erase T p v1 w1 = (Inr p, v2, w2))) \<and>
            (\<forall>v1 w1 v2 w2. Insert T p x v w = (Inr p, v1, w1) \<and>
                            Erase T p v1 w1 = (Inr p, v2, w2) \<longrightarrow>
               ((\<forall>k. x \<noteq> Rvalue (Element k)) \<longrightarrow> content v2 = content v) \<and>
               (\<forall>k. x = Rvalue (Element k) \<longrightarrow>
                  content v2 = (content v)[k := moved_from T (content v ! k)]))"
    if p: "p \<le> Size v"
  proof (cases "arg_value (forward x) xs")
    case None
    have "\<not> refers x xs"
      using None refers_arg[of x xs] by auto
    moreover obtain s1 v1 w1 where i: "Emplace T p (forward x) (vector_of xs c) w = (s1, v1, w1)"
      by (metis prod_cases3)
    ultimately show ?thesis
      using Emplace_dangling[OF None c i] i unfolding v by (auto simp: Insert_def)
  next
    case (Some y)
    let ?xs1 = "arg_effect T (forward x) xs"
    let ?ys = "take p ?xs1 @ y # drop p ?xs1" and ?c1 = "grown c (length xs)"
    have p': "p \<le> length xs" using p v by simp
    have c1: "length ?ys \<le> ?c1" and p1: "p < length ?ys"
      using grown_ge[OF c] p' by simp_all
    have restored: "take p ?ys @ drop (Suc p) ?ys = ?xs1"
      using p' by (simp add: min_def)
    have eff: "(\<forall>k. x \<noteq> Rvalue (Element k)) \<longrightarrow> ?xs1 = xs"
      "\<forall>k. x = Rvalue (Element k) \<longrightarrow> ?xs1 = xs[k := moved_from T (xs ! k)]"
      by (auto simp: arg_effect_forward split: val.splits ref.splits)
    obtain s1 v1 w1 where i: "Insert T p x (vector_of xs c) w = (s1, v1, w1)"
      by (metis prod_cases3)
    obtain s2 v2 w2 where e: "Erase T p (vector_of ?ys ?c1) w1 = (s2, v2, w2)"
      by (metis prod_cases3)
    from Insert_result[OF c p' Some fit i] Erase_result[OF c1 p1 e] show ?thesis
      unfolding v using i e restored eff by auto
  qed
  have second: "(never_throws T \<longrightarrow>
                  (\<exists>v1 w1 v2 w2. Erase T p v w = (Inr p, v1, w1) \<and>
                     Insert T p (f (Outside (content v ! p))) v1 w1 = (Inr p, v2, w2))) \<and>
               (\<forall>v1 w1 v2 w2. Erase T p v w = (Inr p, v1, w1) \<and>
                     Insert T p (f (Outside (content v ! p))) v1 w1 = (Inr p, v2, w2) \<longrightarrow>
                  content v2 = content v)"
    if p: "p < Size v" and f: "f = Lvalue \<or> f = Rvalue" for f :: "'a ref \<Rightarrow> 'a val"
  proof -
    let ?ys = "take p xs @ drop (Suc p) xs"
    have p': "p < length xs" using p v by simp
    have c1: "length ?ys \<le> c" and p1: "p \<le> length ?ys" and lt: "length ?ys < c"
      using c p' by simp_all
    have restored: "take p ?ys @ (xs ! p) # drop p ?ys = xs"
      using p' by (simp add: min_def id_take_nth_drop[symmetric])
    have arg: "arg_value (forward (f (Outside (xs ! p)))) ?ys = Some (xs ! p)"
      and eff: "arg_effect T (forward (f (Outside (xs ! p)))) ?ys = ?ys"
      using f by auto
    obtain s1 v1 w1 where e: "Erase T p (vector_of xs c) w = (s1, v1, w1)"
      by (metis prod_cases3)
    obtain s2 v2 w2 where
      i: "Insert T p (f (Outside (xs ! p))) (vector_of ?ys c) w1 = (s2, v2, w2)"
      by (metis prod_cases3)
    from Erase_result[OF c p' e] Insert_result[OF c1 p1 arg disjI1[OF lt] i] show ?thesis
      unfolding v using i e restored eff by auto
  qed
  show ?thesis
  proof (rule conjI; rule impI)
    assume "p \<le> Size v"
    then show "(never_throws T \<and> refers x (content v) \<longrightarrow>
               (\<exists>v1 w1 v2 w2. Insert T p x v w = (Inr p, v1, w1) \<and>
                               Erase T p v1 w1 = (Inr p, v2, w2))) \<and>
            (\<forall>v1 w1 v2 w2. Insert T p x v w = (Inr p, v1, w1) \<and>
                            Erase T p v1 w1 = (Inr p, v2, w2) \<longrightarrow>
               ((\<forall>k. x \<noteq> Rvalue (Element k)) \<longrightarrow> content v2 = content v) \<and>
               (\<forall>k. x = Rvalue (Element k) \<longrightarrow>
                  content v2 = (content v)[k := moved_from T (content v ! k)]))"
      by (rule first)
  next
    assume p: "p < Size v"
    show "\<forall>f \<in> {Lvalue, Rvalue}.
               (never_throws T \<longrightarrow>
                  (\<exists>v1 w1 v2 w2. Erase T p v w = (Inr p, v1, w1) \<and>
                     Insert T p (f (Outside (content v ! p))) v1 w1 = (Inr p, v2, w2))) \<and>
               (\<forall>v1 w1 v2 w2. Erase T p v w = (Inr p, v1, w1) \<and>
                     Insert T p (f (Outside (content v ! p))) v1 w1 = (Inr p, v2, w2) \<longrightarrow>
                  content v2 = content v)"
    proof (rule ballI)
      fix f :: "'a ref \<Rightarrow> 'a val"
      assume "f \<in> {Lvalue, Rvalue}"
      then have "f = Lvalue \<or> f = Rvalue"
        by simp
      then show "(never_throws T \<longrightarrow>
                  (\<exists>v1 w1 v2 w2. Erase T p v w = (Inr p, v1, w1) \<and>
                     Insert T p (f (Outside (content v ! p))) v1 w1 = (Inr p, v2, w2))) \<and>
               (\<forall>v1 w1 v2 w2. Erase T p v w = (Inr p, v1, w1) \<and>
                     Insert T p (f (Outside (content v ! p))) v1 w1 = (Inr p, v2, w2) \<longrightarrow>
                  content v2 = content v)"
        by (rule second[OF p])
    qed
  qed
qed


text \<open>
  The steps of a mid-array insertion without growth. An \<open>Emplace\<close> at a position \<open>p\<close>
  before the end of a well-formed vector with spare capacity succeeds when nothing
  throws; whenever it returns normally it has performed exactly these element
  operations, in this order: the construction of the temporary, which leaves the
  elements as \<open>ys\<close>; the construction of the last element in the end slot, by move when
  the move of \<open>T\<close> cannot throw or \<open>T\<close> cannot be copied and by copy otherwise; the move
  assignment of each element of \<open>[p, oldEnd - 1)\<close> to the next slot, from the last one
  down to the one at \<open>p\<close>, whatever the traits of \<open>T\<close>; the move assignment of the
  temporary into slot \<open>p\<close>; the destruction of the temporary. The content is then \<open>ys\<close>
  with the new value inserted at \<open>p\<close>.
\<close>

lemma insert_mid_without_growth_steps:
  assumes "Vector_inv v" and "Size v < Capacity v" and "p < Size v"
    and "arg_value a (content v) = Some x" and "ys = arg_effect T a (content v)"
  shows "(never_throws T \<longrightarrow> fst (Emplace T p a v w) = Inr p) \<and>
         (\<forall>v' w'. Emplace T p a v w = (Inr p, v', w') \<longrightarrow>
            trace w' = trace w @
              [arg_event a x,
               if is_nothrow_move_constructible T \<or> \<not> is_copy_constructible T
               then MoveCtor (last ys) else CopyCtor (last ys)] @
              map MoveAssign (rev (drop p (butlast ys))) @
              [MoveAssign x, Dtor (moved_from T x)] \<and>
            content v' = take p ys @ x # drop p ys \<and>
            Capacity v' = Capacity v \<and> leaked w' = leaked w)"
proof -
  from assms(1) obtain xs c where v: "v = vector_of xs c" and c: "length xs \<le> c"
    by (rule Vector_inv_cases)
  have p: "p < length xs" and lt: "length xs < c" and arg: "arg_value a xs = Some x"
    and eff: "ys = arg_effect T a xs"
    using assms v by simp_all
  obtain st v' w' where run: "Emplace T p a (vector_of xs c) w = (st, v', w')"
    by (metis prod_cases3)
  from Emplace_mid_result[OF lt p arg run] show ?thesis
    unfolding v using run eff by (auto simp: moves_def)
qed

section \<open>Concrete runs\<close>


lemma never_throws_marking: "never_throws marking"
  by (simp add: never_throws_def marking_def plain_def)

lemma fits_small: "n \<le> 1000 \<Longrightarrow> fits plain n \<and> fits marking n"
  by (simp add: fits_def SIZE_MAX_def marking_def plain_def)

lemma Vector_inv_vec12: "Vector_inv vec12"
  by code_simp

lemma Vector_inv_vec123: "Vector_inv vec123"
  by code_simp


text \<open>
  C4 on the full vector \<open>[1, 2]\<close>, with a memory provider that has nothing left: every
  growing operation fails with \<open>bad_alloc\<close> and returns the vector as it was.
\<close>

theorem allocation_failure_leaves_vector_unchanged_witness:
  "Vector_inv vec12 \<and> throws out_of_memory (trace world0) (New 4) \<and> Capacity vec12 < 4 \<and>
   Capacity vec12 = Size vec12 \<and>
   Reserve out_of_memory 4 vec12 world0 = (Inl bad_alloc, vec12, emit (New 4) world0) \<and>
   Resize out_of_memory 4 vec12 world0 = (Inl bad_alloc, vec12, emit (New 4) world0) \<and>
   Emplace out_of_memory 1 (CtorArgs 9) vec12 world0 = (Inl bad_alloc, vec12, emit (New 4) world0) \<and>
   PushBack out_of_memory (Lvalue (Outside 9)) vec12 world0 =
     (Inl bad_alloc, vec12, emit (New 4) world0)"
proof -
  have t: "throws out_of_memory (trace world0) (New 4)"
    by (simp add: out_of_memory_def)
  have s: "Capacity vec12 < 4" "Capacity vec12 = Size vec12" "1 \<le> Size vec12"
    "4 = (if Size vec12 = 0 then 1 else Size vec12 * 2)"
    by (simp_all add: vec12_def Capacity_def Size_def)
  show ?thesis
    using allocation_failure_leaves_vector_unchanged[OF Vector_inv_vec12 t,
        of 1 "CtorArgs 9" "Lvalue (Outside 9)"] t s Vector_inv_vec12
    by simp
qed



text \<open>
  C7 on \<open>[1, 2]\<close> at position 1: inserting the vector's own first element by
  \<open>const T&\<close> and erasing restores \<open>[1, 2]\<close>; inserting it as an rvalue and erasing gives
  \<open>[101, 2]\<close>; erasing and inserting the erased value, by either overload, restores
  \<open>[1, 2]\<close>.
\<close>

theorem insert_erase_round_trip_witness:
  "Vector_inv vec12 \<and> fits marking (grown (Capacity vec12) (Size vec12)) \<and>
   1 \<le> Size vec12 \<and> 1 < Size vec12 \<and> never_throws marking \<and>
   refers (Lvalue (Element 0)) (content vec12) \<and> refers (Rvalue (Element 0)) (content vec12) \<and>
   fst (Insert marking 1 (Lvalue (Element 0)) vec12 world0) = Inr 1 \<and>
   content (fst (snd (Erase marking 1 (fst (snd (Insert marking 1 (Lvalue (Element 0)) vec12 world0)))
          (snd (snd (Insert marking 1 (Lvalue (Element 0)) vec12 world0)))))) = content vec12 \<and>
   fst (Insert marking 1 (Rvalue (Element 0)) vec12 world0) = Inr 1 \<and>
   content (fst (snd (Erase marking 1 (fst (snd (Insert marking 1 (Rvalue (Element 0)) vec12 world0)))
          (snd (snd (Insert marking 1 (Rvalue (Element 0)) vec12 world0)))))) =
     (content vec12)[0 := moved_from marking (content vec12 ! 0)] \<and>
   fst (Erase marking 1 vec12 world0) = Inr 1 \<and>
   content (fst (snd (Insert marking 1 (Lvalue (Outside (content vec12 ! 1)))
          (fst (snd (Erase marking 1 vec12 world0))) (snd (snd (Erase marking 1 vec12 world0))))))
     = content vec12 \<and>
   content (fst (snd (Insert marking 1 (Rvalue (Outside (content vec12 ! 1)))
          (fst (snd (Erase marking 1 vec12 world0))) (snd (snd (Erase marking 1 vec12 world0))))))
     = content vec12"
proof -
  have c: "content vec12 = [1, 2]" and s: "Size vec12 = 2" "Capacity vec12 = 2"
    by (simp_all add: content_def vec12_def block_of_def Size_def Capacity_def)
  have f: "fits marking (grown (Capacity vec12) (Size vec12))"
    using fits_small[of 4] by (simp add: s grown_def)
  have r: "refers (Lvalue (Element 0)) (content vec12)" "refers (Rvalue (Element 0)) (content vec12)"
    by (simp_all add: c)
  have p: "1 \<le> Size vec12" "1 < Size vec12"
    by (simp_all add: s)
  note thl = insert_erase_round_trip[OF Vector_inv_vec12 f, where p = 1
      and x = "Lvalue (Element 0)" and w = world0]
  note thr = insert_erase_round_trip[OF Vector_inv_vec12 f, where p = 1
      and x = "Rvalue (Element 0)" and w = world0]
  from thl p r never_throws_marking obtain v1 w1 v2 w2 where
    a: "Insert marking 1 (Lvalue (Element 0)) vec12 world0 = (Inr 1, v1, w1)"
       "Erase marking 1 v1 w1 = (Inr 1, v2, w2)"
    by blast
  from thr p r never_throws_marking obtain v3 w3 v4 w4 where
    b: "Insert marking 1 (Rvalue (Element 0)) vec12 world0 = (Inr 1, v3, w3)"
       "Erase marking 1 v3 w3 = (Inr 1, v4, w4)"
    by blast
  have e1: "Lvalue \<in> {Lvalue, Rvalue :: nat ref \<Rightarrow> nat val}"
    and e2: "Rvalue \<in> {Lvalue, Rvalue :: nat ref \<Rightarrow> nat val}"
    by simp_all
  from thl p never_throws_marking e1 obtain v5 w5 v6 w6 where
    d: "Erase marking 1 vec12 world0 = (Inr 1, v5, w5)"
       "Insert marking 1 (Lvalue (Outside (content vec12 ! 1))) v5 w5 = (Inr 1, v6, w6)"
    by blast
  from thl p never_throws_marking e2 d(1) obtain v7 w7 where
    d': "Insert marking 1 (Rvalue (Outside (content vec12 ! 1))) v5 w5 = (Inr 1, v7, w7)"
    by (metis Pair_inject)
  have "content v2 = content vec12"
    using thl p a by blast
  moreover have "content v4 = (content vec12)[0 := moved_from marking (content vec12 ! 0)]"
    using thr p b by blast
  moreover have "content v6 = content vec12"
    using thl p d e1 by blast
  moreover have "content v7 = content vec12"
    using thl p d(1) d' e2 by blast
  ultimately show ?thesis
    using a b d d' p r f never_throws_marking Vector_inv_vec12 by simp
qed

text \<open>
  C7 as stated fails when the value inserted is moved from an element of the vector
  itself: \<^verbatim>\<open>v.Insert(v.begin(), std::move(v[1]))\<close> on \<open>[1, 2]\<close> gives \<open>[2, 1, 102]\<close>, and
  erasing at the same position then gives \<open>[1, 102]\<close>, not the original sequence.
\<close>

theorem round_trip_of_moved_element_changes_content:
  "fst (Insert marking 0 (Rvalue (Element 1)) vec12 world0) = Inr 0 \<and>
   fst (Erase marking 0 (fst (snd (Insert marking 0 (Rvalue (Element 1)) vec12 world0)))
          (snd (snd (Insert marking 0 (Rvalue (Element 1)) vec12 world0)))) = Inr 0 \<and>
   content vec12 = [1, 2] \<and>
   content (fst (snd (Insert marking 0 (Rvalue (Element 1)) vec12 world0))) = [2, 1, 102] \<and>
   content (fst (snd (Erase marking 0 (fst (snd (Insert marking 0 (Rvalue (Element 1)) vec12 world0)))
          (snd (snd (Insert marking 0 (Rvalue (Element 1)) vec12 world0)))))) = [1, 102] \<and>
   content (fst (snd (Erase marking 0 (fst (snd (Insert marking 0 (Rvalue (Element 1)) vec12 world0)))
          (snd (snd (Insert marking 0 (Rvalue (Element 1)) vec12 world0)))))) \<noteq> content vec12"
  by code_simp


section \<open>The shift of a mid-array insertion\<close>

text \<open>
  C3 on \<open>[1, 2]\<close> with capacity 4, for a copyable element type whose move constructor
  may throw. The insertion of 9 at position 0 copy-constructs the last element into the
  end slot, as C3 says, but then shifts the element 1 by move assignment
  (\<open>std::move_backward\<close>), where C3 says copy-backward. \<open>Erase\<close> at position 0 of
  \<open>[1, 2, 3]\<close>, for the same element type, shifts by copy assignment (\<open>std::copy\<close>).
\<close>

theorem insert_mid_never_copies_backward:
  "\<not> is_nothrow_move_constructible copy_preferring \<and> is_copy_constructible copy_preferring \<and>
   Emplace copy_preferring 0 (CtorArgs 9) vec12_cap4 world0 =
     (Inr 0,
      \<lparr>m_data = \<lparr>m_buffer = [Some 9, Some 1, Some 2, None], m_capacity = 4\<rparr>, m_size = 3\<rparr>,
      \<lparr>trace = [ArgsCtor 9, CopyCtor 2, MoveAssign 1, MoveAssign 9, Dtor 9], leaked = []\<rparr>) \<and>
   Erase copy_preferring 0 vec123 world0 =
     (Inr 0,
      \<lparr>m_data = \<lparr>m_buffer = [Some 2, Some 3, None], m_capacity = 3\<rparr>, m_size = 2\<rparr>,
      \<lparr>trace = [CopyAssign 2, CopyAssign 3, Dtor 3], leaked = []\<rparr>)"
  by code_simp

section \<open>Exceptions during a bulk transfer\<close>

text \<open>
  C1 at the failure scenario (an element type whose third copy throws) on \<open>[1, 2, 3]\<close>.
  \<open>Resize\<close> to 5 fails and returns the vector unchanged, but the two elements it had
  value-constructed in the new buffer are released with the buffer while still alive.
  \<open>Emplace\<close> at position 1 fails likewise, leaking the new element 9 and the copy of
  the prefix element 1 that the first transfer had built.
\<close>

theorem transfer_failure_leaks_new_elements:
  "Resize third_copy_throws 5 vec123 world0 =
     (Inl element_exception, vec123,
      \<lparr>trace = [New 5, ValueCtor, ValueCtor, CopyCtor 1, CopyCtor 2, CopyCtor 3, Dtor 1, Dtor 2],
       leaked = [0, 0]\<rparr>) \<and>
   Emplace third_copy_throws 1 (CtorArgs 9) vec123 world0 =
     (Inl element_exception, vec123,
      \<lparr>trace = [New 6, ArgsCtor 9, CopyCtor 1, CopyCtor 2, CopyCtor 3, Dtor 2],
       leaked = [1, 9]\<rparr>)"
  by code_simp

section \<open>A length whose byte count wraps\<close>

lemma uvc_loop_outside:
  assumes "0 < n" and "\<not> raises T (trace w) ValueCtor" and "length b \<le> cur"
  shows "uvc_loop T d_first cur n b w = (Inl undefined_behaviour, b, emit ValueCtor w)"
  using assms by (cases n) (simp_all add: place_def)

text \<open>
  C6 at \<open>k = 2 ^ 61 + 1\<close>, for an element type of eight bytes an object, on \<open>[1, 2]\<close>.
  \<open>Allocate\<close> computes \<open>k * 8\<close> in \<open>size_t\<close>, which is 8: the buffer \<open>Resize\<close> obtains
  has one slot, while its capacity is recorded as \<open>k\<close>. The value construction of the new
  elements starts at slot 2, outside the buffer: undefined behaviour, and the vector is
  left with its length 2.
\<close>

theorem resize_beyond_size_t_overruns_buffer:
  "sizeof plain = 8 \<and> Vector_inv vec12 \<and>
   RawMemory_new plain (2 ^ 61 + 1) world0 =
     (Inr \<lparr>m_buffer = [None], m_capacity = 2 ^ 61 + 1\<rparr>,
      \<lparr>trace = [New (2 ^ 61 + 1)], leaked = []\<rparr>) \<and>
   Resize plain (2 ^ 61 + 1) vec12 world0 =
     (Inl undefined_behaviour, vec12, \<lparr>trace = [New (2 ^ 61 + 1), ValueCtor], leaked = []\<rparr>)"
proof -
  have a: "RawMemory_new plain (2 ^ 61 + 1) world0 =
     (Inr \<lparr>m_buffer = [None], m_capacity = 2 ^ 61 + 1\<rparr>,
      \<lparr>trace = [New (2 ^ 61 + 1)], leaked = []\<rparr>)"
    by (simp add: RawMemory_new_def Allocate_def size_t_def plain_def raises.simps emit_def
        world0_def)
  have b: "uninitialized_value_construct plain 2 (2 ^ 61 + 1) [None]
             \<lparr>trace = [New (2 ^ 61 + 1)], leaked = []\<rparr> =
           (Inl undefined_behaviour, [None],
            \<lparr>trace = [New (2 ^ 61 + 1), ValueCtor], leaked = []\<rparr>)"
    by (simp add: uninitialized_value_construct_def uvc_loop_outside plain_def
        raises.simps emit_def)
  have c: "Resize plain (2 ^ 61 + 1) vec12 world0 =
     (Inl undefined_behaviour, vec12, \<lparr>trace = [New (2 ^ 61 + 1), ValueCtor], leaked = []\<rparr>)"
    using a b
    by (simp add: Resize_def vec12_def Capacity_def plus_ok_def unwind_RawMemory_def
        is_exception_def)
  show ?thesis
    using a c Vector_inv_vec12 by (simp add: plain_def)
qed

section \<open>The representation invariant after a failed insertion\<close>

text \<open>
  C8 on a state reached from the empty vector. With an element type whose move
  assignment throws: \<open>Reserve 4\<close>, then \<open>PushBack 1\<close> and \<open>PushBack 2\<close>, give the
  well-formed vector \<open>[1, 2]\<close> of capacity 4. \<open>Insert\<close> of 9 at position 0 then
  constructs a copy of the last element in slot 2 and fails in the shift, leaving the
  length at 2 with an object alive in slot 2: the invariant no longer holds.
\<close>

theorem failed_insert_breaks_invariant:
  "Reserve move_assign_throws 4 Vector_default world0 =
     (Inr (), \<lparr>m_data = \<lparr>m_buffer = [None, None, None, None], m_capacity = 4\<rparr>, m_size = 0\<rparr>,
      \<lparr>trace = [New 4], leaked = []\<rparr>) \<and>
   PushBack_seq move_assign_throws [Lvalue (Outside 1), Lvalue (Outside 2)]
     \<lparr>m_data = \<lparr>m_buffer = [None, None, None, None], m_capacity = 4\<rparr>, m_size = 0\<rparr>
     \<lparr>trace = [New 4], leaked = []\<rparr> =
     (Inr (),
      [\<lparr>m_data = \<lparr>m_buffer = [Some 1, None, None, None], m_capacity = 4\<rparr>, m_size = 1\<rparr>,
       vec12_cap4],
      \<lparr>trace = [New 4, CopyCtor 1, CopyCtor 2], leaked = []\<rparr>) \<and>
   Vector_inv vec12_cap4 \<and>
   Insert move_assign_throws 0 (Lvalue (Outside 9)) vec12_cap4
     \<lparr>trace = [New 4, CopyCtor 1, CopyCtor 2], leaked = []\<rparr> =
     (Inl element_exception,
      \<lparr>m_data = \<lparr>m_buffer = [Some 1, Some 2, Some 2, None], m_capacity = 4\<rparr>, m_size = 2\<rparr>,
      \<lparr>trace = [New 4, CopyCtor 1, CopyCtor 2, CopyCtor 9, MoveCtor 2, MoveAssign 1, Dtor 9],
       leaked = []\<rparr>) \<and>
   \<not> Vector_inv
      \<lparr>m_data = \<lparr>m_buffer = [Some 1, Some 2, Some 2, None::nat option], m_capacity = 4\<rparr>,
       m_size = 2\<rparr>"
  by code_simp

theorem transfer_failure_leaks_new_elements_witness:
  "leaked (snd (snd (Resize third_copy_throws 5 vec123 world0))) = [0, 0] \<and>
   leaked (snd (snd (Emplace third_copy_throws 1 (CtorArgs 9) vec123 world0))) = [1, 9]"
  using transfer_failure_leaks_new_elements by simp

theorem failed_insert_breaks_invariant_witness:
  "Vector_inv vec12_cap4 \<and>
   \<not> Vector_inv (fst (snd (Insert move_assign_throws 0 (Lvalue (Outside 9)) vec12_cap4
                     \<lparr>trace = [New 4, CopyCtor 1, CopyCtor 2], leaked = []\<rparr>)))"
  using failed_insert_breaks_invariant by simp

end
